theory Spec2Isabelle
  imports Complex_Main
begin

section \<open>Configuration constants of server.js\<close>

definition MAX_TOKENS :: nat where
  "MAX_TOKENS = 8000"

definition PDF_TEXT_CHUNK_CHARS :: nat where
  "PDF_TEXT_CHUNK_CHARS = 12000"

definition PDF_TEXT_CHUNK_OVERLAP :: nat where
  "PDF_TEXT_CHUNK_OVERLAP = 600"

definition MULTIPASS_THRESHOLD_CHARS :: nat where
  "MULTIPASS_THRESHOLD_CHARS = 40000"

definition VISUAL_FALLBACK_MIN_TEXT_CHARS :: nat where
  "VISUAL_FALLBACK_MIN_TEXT_CHARS = 1500"

definition VISUAL_FALLBACK_MAX_CHARS_PER_PAGE :: real where
  "VISUAL_FALLBACK_MAX_CHARS_PER_PAGE = 120"

definition VISUAL_RENDER_MAX_PAGES :: nat where
  "VISUAL_RENDER_MAX_PAGES = 6"

section \<open>Strings\<close>

text \<open>
  A JavaScript string is modelled as a \<^typ>\<open>string\<close>, one \<^typ>\<open>char\<close> per code unit
  (code units above 0xFF are outside the model). \<open>length\<close> and \<open>slice\<close> count code units,
  as the source does.
\<close>

text \<open>The white space and line terminators that \<open>String.prototype.trim\<close> removes.\<close>

definition is_js_space :: "char \<Rightarrow> bool" where
  "is_js_space c \<longleftrightarrow>
     c \<in> {CHR 0x09, CHR 0x0A, CHR 0x0B, CHR 0x0C, CHR 0x0D, CHR 0x20, CHR 0xA0}"

definition js_trim :: "string \<Rightarrow> string" where
  "js_trim s = rev (dropWhile is_js_space (rev (dropWhile is_js_space s)))"

text \<open>\<open>s.slice(b, e)\<close> for \<open>0 \<le> b\<close> and \<open>0 \<le> e\<close>: both ends are clamped to the length.\<close>

definition js_slice :: "'a list \<Rightarrow> nat \<Rightarrow> nat \<Rightarrow> 'a list" where
  "js_slice xs b e = take (e - b) (drop b xs)"

text \<open>\<open>s.startsWith(p)\<close>.\<close>

definition startsWith :: "string \<Rightarrow> string \<Rightarrow> bool" where
  "startsWith s p \<longleftrightarrow> take (length p) s = p"

text \<open>\<open>text.replace(/\r\n/g, "\n")\<close>: every CR LF pair, left to right, becomes one LF.\<close>

fun replace_crlf :: "string \<Rightarrow> string" where
  "replace_crlf (c # d # cs) =
     (if c = CHR 0x0D \<and> d = CHR 0x0A then CHR 0x0A # replace_crlf cs
      else c # replace_crlf (d # cs))"
| "replace_crlf cs = cs"

section \<open>Chunker: chunkText\<close>

text \<open>
  The \<open>while\<close> loop of \<open>chunkText\<close>, with the variables \<open>start\<close> and \<open>chunks\<close> as
  arguments. \<open>chunkSize\<close> and \<open>overlap\<close> are character counts, so
  \<open>Math.max(0, end - overlap)\<close> is the truncated subtraction of \<^typ>\<open>nat\<close>. The loop
  does not return when the window fails to advance (an overlap that is not smaller than the
  window): the result is an option, \<open>None\<close> for a run that never ends.
\<close>

partial_function (option) chunk_loop ::
  "'a list \<Rightarrow> nat \<Rightarrow> nat \<Rightarrow> nat \<Rightarrow> 'a list list \<Rightarrow> 'a list list option" where
  "chunk_loop clean chunkSize overlap start chunks =
     (if start < length clean then
        (if min (start + chunkSize) (length clean) \<ge> length clean
         then Some (chunks @ [js_slice clean start (min (start + chunkSize) (length clean))])
         else chunk_loop clean chunkSize overlap
                (max 0 (min (start + chunkSize) (length clean) - overlap))
                (chunks @ [js_slice clean start (min (start + chunkSize) (length clean))]))
      else Some chunks)"

definition chunkText :: "string \<Rightarrow> nat \<Rightarrow> nat \<Rightarrow> string list option" where
  "chunkText text chunkSize overlap =
     (if js_trim (replace_crlf text) = [] then Some []
      else chunk_loop (replace_crlf text) chunkSize overlap 0 [])"

text \<open>
  Putting the chunks back together: the first chunk, then every later chunk without its
  first \<open>overlap\<close> characters.
\<close>

fun reconstruct :: "nat \<Rightarrow> 'a list list \<Rightarrow> 'a list" where
  "reconstruct overlap [] = []"
| "reconstruct overlap (c # cs) = c @ concat (map (drop overlap) cs)"

section \<open>Visual fallback: decision and page sampling\<close>

text \<open>\<open>pages = numpages || 0\<close>: a missing page count counts as zero.\<close>

definition pages_of :: "nat option \<Rightarrow> nat" where
  "pages_of numpages = (case numpages of None \<Rightarrow> 0 | Some n \<Rightarrow> n)"

text \<open>
  \<open>textChars / pages\<close> is a division of doubles in the source and is only compared with
  the threshold 120. For a page count below \<open>2^46\<close> the rounded quotient is below 120
  exactly when the exact quotient is, so the quotient is taken in the reals.
\<close>

definition charsPerPage :: "nat \<Rightarrow> nat \<Rightarrow> real" where
  "charsPerPage textChars pages = (if pages > 0 then real textChars / real pages else 0)"

definition shouldRenderVisual :: "nat \<Rightarrow> nat \<Rightarrow> bool" where
  "shouldRenderVisual textChars pages \<longleftrightarrow>
     pages > 0 \<and>
     (textChars < VISUAL_FALLBACK_MIN_TEXT_CHARS \<or>
      charsPerPage textChars pages < VISUAL_FALLBACK_MAX_CHARS_PER_PAGE)"

definition interval_of :: "nat \<Rightarrow> nat" where
  "interval_of pages = max 2 (pages div 5)"

text \<open>The \<open>for (p = 1 + interval; p <= pages; p += interval)\<close> loop.\<close>

function sample_loop :: "nat \<Rightarrow> nat \<Rightarrow> nat list \<Rightarrow> nat list" where
  "sample_loop pages p samplePages =
     (if p \<le> pages then sample_loop pages (p + interval_of pages) (samplePages @ [p])
      else samplePages)"
  by pat_completeness auto
termination
  by (relation "measure (\<lambda>(pages, p, samplePages). Suc pages - p)")
     (auto simp: interval_of_def)

declare sample_loop.simps [simp del]

definition samplePages :: "nat \<Rightarrow> nat list" where
  "samplePages pages = sample_loop pages (1 + interval_of pages) [1]"

text \<open>\<open>[...new Set(xs)]\<close>: the elements in the order of their first occurrence.\<close>

definition dedupe :: "'a list \<Rightarrow> 'a list" where
  "dedupe xs = foldl (\<lambda>seen x. if x \<in> set seen then seen else seen @ [x]) [] xs"

definition uniquePages :: "nat \<Rightarrow> nat list" where
  "uniquePages pages = filter (\<lambda>p. p \<ge> 1 \<and> p \<le> pages) (dedupe (samplePages pages))"

definition cappedPages :: "nat \<Rightarrow> nat list" where
  "cappedPages pages = js_slice (uniquePages pages) 0 VISUAL_RENDER_MAX_PAGES"

section \<open>Data model\<close>

text \<open>A thrown JavaScript exception, by where it comes from.\<close>

datatype error =
  IOError string
| ExtractionError string
| RenderError string
| ApiError string
| TypeError string

text \<open>
  A content block is \<open>{type: "text", text}\<close> or
  \<open>{type: "image", source: {type: "base64", media_type, data}}\<close>.
\<close>

datatype content_block =
  TextBlock string
| ImageBlock string string

fun is_text :: "content_block \<Rightarrow> bool" where
  "is_text (TextBlock t) = True"
| "is_text (ImageBlock m d) = False"

fun is_image :: "content_block \<Rightarrow> bool" where
  "is_image (ImageBlock m d) = True"
| "is_image (TextBlock t) = False"

fun block_text :: "content_block \<Rightarrow> string" where
  "block_text (TextBlock t) = t"
| "block_text (ImageBlock m d) = []"

datatype role = User | Assistant

type_synonym turn = "role \<times> content_block list"

text \<open>The argument of \<open>anthropic.messages.create\<close> (the model name is left out).\<close>

record 'm llm_request =
  max_tokens :: nat
  system :: string
  messages :: "'m list"

text \<open>A file as multer hands it over; an absent \<open>originalname\<close> is the empty string.\<close>

record uploaded_file =
  originalname :: string
  filename :: string
  path :: string

record pdf_diag =
  d_filename :: string
  d_numpages :: "nat option"
  d_textLength :: nat
  d_chunkCount :: nat

text \<open>What a handler sends: \<open>res.status(n).json({error})\<close> or \<open>res.json({breakdown, conversationHistory})\<close>.\<close>

datatype 'h response =
  ErrorResponse nat string
| BreakdownResponse string 'h

section \<open>The world outside the process\<close>

text \<open>
  The state a request changes: the paths that exist in temporary storage (the uploads
  directory, which also receives the rendered pages), and the requests sent to the
  summarization service so far.
\<close>

record world =
  stored :: "string set"
  calls :: "turn llm_request list"

text \<open>
  What the outside answers. \<open>readFile\<close> is \<open>fs.readFile\<close>, \<open>base64\<close> is
  \<open>buffer.toString("base64")\<close>, \<open>pdf_backend\<close> is the parse function that
  \<open>getPdfParseAdapter\<close> resolves (or the error it throws, for a failed import or an
  unsupported module shape) with the raw \<open>text\<close> and \<open>numpages\<close> it yields,
  \<open>pdftoppm_available\<close> is the answer of \<open>isPdftoppmAvailable\<close>,
  \<open>render_result\<close> is the outcome of \<open>renderPdfPageToJpeg\<close> (the path of the JPEG that
  pdftoppm wrote), \<open>unlink_error\<close> is the error with which the file system refuses to
  unlink an existing path (a permission error, a busy file), if it refuses, and
  \<open>messages_create\<close> is the service: it may answer differently on every call, so it sees
  the requests made before; its answer is \<open>msg.content?.[0]?.text\<close>.
\<close>

record env =
  api_key_set :: bool
  readFile :: "string \<Rightarrow> error + string"
  base64 :: "string \<Rightarrow> string"
  pdf_backend :: "error + (string \<Rightarrow> error + string option \<times> nat option)"
  pdftoppm_available :: bool
  render_result :: "string \<Rightarrow> nat \<Rightarrow> error + string"
  unlink_error :: "string \<Rightarrow> error option"
  messages_create :: "turn llm_request list \<Rightarrow> turn llm_request \<Rightarrow> error + string option"

text \<open>
  \<open>fs.unlink(p)\<close> fails on a path that does not exist, fails and leaves the file where
  the file system refuses, and removes the path otherwise;
  \<open>fs.unlink(p).catch(() => {})\<close> swallows every failure.
\<close>

definition unlink :: "env \<Rightarrow> string \<Rightarrow> world \<Rightarrow> error + world" where
  "unlink e p w =
     (if p \<notin> stored w then Inl (IOError ''ENOENT'')
      else
        (case unlink_error e p of
           Some err \<Rightarrow> Inl err
         | None \<Rightarrow> Inr (w\<lparr>stored := stored w - {p}\<rparr>)))"

definition unlink_quiet :: "env \<Rightarrow> string \<Rightarrow> world \<Rightarrow> world" where
  "unlink_quiet e p w = (case unlink e p w of Inl err \<Rightarrow> w | Inr w' \<Rightarrow> w')"

text \<open>\<open>x || ""\<close> on an optional string.\<close>

definition or_empty :: "string option \<Rightarrow> string" where
  "or_empty t = (case t of None \<Rightarrow> [] | Some s \<Rightarrow> s)"

text \<open>
  One call of \<open>anthropic.messages.create\<close> followed by \<open>msg.content?.[0]?.text || ""\<close>,
  as all three call sites read the answer.
\<close>

definition api_call :: "env \<Rightarrow> turn llm_request \<Rightarrow> world \<Rightarrow> (error + string) \<times> world" where
  "api_call e r w =
     (case messages_create e (calls w) r of
        Inl err \<Rightarrow> (Inl err, w\<lparr>calls := calls w @ [r]\<rparr>)
      | Inr t \<Rightarrow> (Inr (or_empty t), w\<lparr>calls := calls w @ [r]\<rparr>))"

section \<open>Helpers\<close>

text \<open>\<open>String(n)\<close> for a non-negative integer.\<close>

fun show_nat :: "nat \<Rightarrow> string" where
  "show_nat n =
     (if n < 10 then [char_of (48 + n)]
      else show_nat (n div 10) @ [char_of (48 + n mod 10)])"

declare show_nat.simps [simp del]

text \<open>\<open>xs.join(sep)\<close>.\<close>

fun js_join :: "string \<Rightarrow> string list \<Rightarrow> string" where
  "js_join sep [] = []"
| "js_join sep [x] = x"
| "js_join sep (x # y # ys) = x @ sep @ js_join sep (y # ys)"

text \<open>\<open>toLowerCase\<close> on one code unit below 0x100.\<close>

definition to_lower_char :: "char \<Rightarrow> char" where
  "to_lower_char c =
     (let n = (of_char c :: nat) in
      if (65 \<le> n \<and> n \<le> 90) \<or> (192 \<le> n \<and> n \<le> 222 \<and> n \<noteq> 215)
      then char_of (n + 32) else c)"

text \<open>
  \<open>path.extname\<close> of Node (POSIX): the part of the last path segment from its last dot,
  empty when the segment has no dot, starts with its only dot, or is \<open>..\<close>.
\<close>

definition last_segment :: "string \<Rightarrow> string" where
  "last_segment s =
     rev (takeWhile (\<lambda>c. c \<noteq> CHR ''/'') (dropWhile (\<lambda>c. c = CHR ''/'') (rev s)))"

definition extname :: "string \<Rightarrow> string" where
  "extname s =
     (let seg = last_segment s;
          ext = rev (takeWhile (\<lambda>c. c \<noteq> CHR ''.'') (rev seg))
      in if CHR ''.'' \<notin> set seg then []
         else if Suc (length ext) = length seg then []
         else if seg = ''..'' then []
         else CHR ''.'' # ext)"

definition media_types :: "(string \<times> string) list" where
  "media_types =
     [(''.pdf'', ''application/pdf''),
      (''.png'', ''image/png''),
      (''.jpg'', ''image/jpeg''),
      (''.jpeg'', ''image/jpeg''),
      (''.gif'', ''image/gif''),
      (''.txt'', ''text/plain''),
      (''.doc'', ''application/msword''),
      (''.docx'', ''application/vnd.openxmlformats-officedocument.wordprocessingml.document'')]"

definition getMediaType :: "string \<Rightarrow> string" where
  "getMediaType name =
     (case map_of media_types (map to_lower_char (extname name)) of
        Some t \<Rightarrow> t
      | None \<Rightarrow> ''application/octet-stream'')"

definition fileToBase64 :: "env \<Rightarrow> string \<Rightarrow> error + string" where
  "fileToBase64 e filepath =
     (case readFile e filepath of
        Inl err \<Rightarrow> Inl err
      | Inr buffer \<Rightarrow> Inr (base64 e buffer))"

text \<open>
  \<open>extractPdfText\<close>: read the file, resolve the adapter, parse. The adapter returns
  \<open>(parsed?.text || "").trim()\<close> and the page count.
\<close>

definition extractPdfText :: "env \<Rightarrow> string \<Rightarrow> error + string \<times> nat option" where
  "extractPdfText e filePath =
     (case readFile e filePath of
        Inl err \<Rightarrow> Inl err
      | Inr buffer \<Rightarrow>
          (case pdf_backend e of
             Inl err \<Rightarrow> Inl err
           | Inr parse \<Rightarrow>
               (case parse buffer of
                  Inl err \<Rightarrow> Inl err
                | Inr (t, numpages) \<Rightarrow> Inr (js_trim (or_empty t), numpages))))"

text \<open>\<open>file.originalname || file.filename\<close>.\<close>

definition file_label :: "uploaded_file \<Rightarrow> string" where
  "file_label f = (if originalname f \<noteq> [] then originalname f else filename f)"

section \<open>Prompts and markers\<close>

definition SYSTEM_PROMPT :: string where
  \<open>SYSTEM_PROMPT =
     ''You are a professional production breakdown specialist. Your job is to analyze film/video production briefs, scripts, and related documents to create detailed production breakdowns.\<newline>\<newline>'' @
     ''CRITICAL RULES:\<newline>'' @
     ''1. ONLY state facts explicitly mentioned in the provided documents\<newline>'' @
     ''2. Clearly mark any assumptions as "RECOMMENDED" or "ASSUMED"\<newline>'' @
     ''3. NEVER mix up details from different projects\<newline>'' @
     ''4. Read scripts carefully for hidden requirements (stunts, special equipment, etc.)\<newline>'' @
     ''5. Format crew as "Department 1x" unless specific numbers are stated\<newline>\<newline>'' @
     ''BREAKDOWN STRUCTURE:\<newline>'' @
     ''- SHOOT DAYS\<newline>'' @
     ''- CREW (Travel CONFIRMED, Travel RECOMMENDED, Technical Crew)\<newline>'' @
     ''- EQUIPMENT\<newline>'' @
     ''- LOCATIONS\<newline>'' @
     ''- ART/PROPS\<newline>'' @
     ''- TRANSPORT\<newline>'' @
     ''- TALENTS (extracted from script)\<newline>'' @
     ''- USAGE (if mentioned)\<newline>'' @
     ''- SPECIAL NOTES & QUESTIONS\<newline>'' @
     ''- MISSING/TBD INFORMATION\<newline>\<newline>'' @
     ''Always separate CONFIRMED facts from RECOMMENDED assumptions.''\<close>

definition NOTES_SYSTEM_PROMPT :: string where
  \<open>NOTES_SYSTEM_PROMPT =
     ''You are extracting production-relevant facts from one chunk of source material.\<newline>'' @
     ''STRICT RULES:\<newline>'' @
     ''- ONLY include facts explicitly stated.\<newline>'' @
     ''- If uncertain, label as RECOMMENDED or QUESTION.\<newline>'' @
     ''OUTPUT FORMAT:\<newline>'' @
     ''Return compact bullet notes under these headings:\<newline>'' @
     ''SHOOT DAYS | CREW | EQUIPMENT | LOCATIONS | ART/PROPS | TRANSPORT | TALENTS | USAGE | SPECIAL NOTES & QUESTIONS | MISSING/TBD\<newline>''\<close>

text \<open>The message the generate handler passes to the assembler.\<close>

definition GENERATE_INSTRUCTION :: string where
  \<open>GENERATE_INSTRUCTION =
     ''Please analyze these production brief documents and create a detailed production breakdown following the format and rules in your system prompt.''\<close>

text \<open>The prefix by which the notes pass recognises an instruction block.\<close>

definition INSTRUCTION_PREFIX :: string where
  \<open>INSTRUCTION_PREFIX = ''Please analyze these production brief documents''\<close>

definition FINAL_INSTRUCTION :: string where
  \<open>FINAL_INSTRUCTION =
     ''You will now produce the final production breakdown. Use the notes below as the only factual source. '' @
     ''If images are attached, use them only to confirm visible details and call out any uncertainties as QUESTIONS.''\<close>

definition image_heavy_notice :: "string \<Rightarrow> string" where
  \<open>image_heavy_notice name =
     ''===== PDF (IMAGE-HEAVY) DETECTED: '' @ name @ '' =====\<newline>'' @
     ''This PDF appears to have little/no extractable text (possibly scanned or image-based),\<newline>'' @
     ''but server cannot render pages because '' @ [CHR 0x27] @ ''pdftoppm'' @ [CHR 0x27] @ '' is not available.\<newline>'' @
     ''Please treat any extracted text as incomplete.\<newline>'' @
     ''===== END PDF NOTICE: '' @ name @ '' =====\<newline>''\<close>

definition visual_start_marker :: "string \<Rightarrow> string" where
  \<open>visual_start_marker name = ''===== VISUAL PAGES FROM PDF: '' @ name @ '' (sampled) =====''\<close>

definition visual_end_marker :: "string \<Rightarrow> string" where
  \<open>visual_end_marker name = ''===== END VISUAL PAGES FROM PDF: '' @ name @ '' =====''\<close>

definition no_text_marker :: "string \<Rightarrow> string" where
  \<open>no_text_marker name =
     ''===== PDF: '' @ name @ '' =====\<newline>'' @
     ''[No extractable text found. This PDF may be image-only / scanned / mostly visual.]\<newline>'' @
     ''===== END PDF: '' @ name @ '' =====\<newline>''\<close>

text \<open>The block of chunk \<open>i\<close> (counted from 0) of \<open>n\<close> chunks.\<close>

definition chunk_marker :: "string \<Rightarrow> nat \<Rightarrow> nat \<Rightarrow> string \<Rightarrow> string" where
  \<open>chunk_marker name i n chunk =
     ''===== PDF: '' @ name @ '' | CHUNK '' @ show_nat (i + 1) @ ''/'' @ show_nat n @ '' =====\<newline>'' @
     chunk @
     ''\<newline>===== END PDF: '' @ name @ '' | CHUNK '' @ show_nat (i + 1) @ ''/'' @ show_nat n @ '' =====\<newline>''\<close>

section \<open>Content assembler: createContentWithFiles\<close>

text \<open>The variables of \<open>createContentWithFiles\<close>, together with the world.\<close>

record asm =
  a_world :: world
  content :: "content_block list"
  pdfDiagnostics :: "pdf_diag list"
  totalExtractedPdfChars :: nat

text \<open>
  The chunks of one PDF. With the window and overlap of the configuration the loop of
  \<open>chunkText\<close> always returns (lemma \<open>pdf_chunks_total\<close> below), so the \<open>None\<close> case
  is never taken.
\<close>

definition pdf_chunks :: "string \<Rightarrow> string list" where
  "pdf_chunks t =
     (case chunkText t PDF_TEXT_CHUNK_CHARS PDF_TEXT_CHUNK_OVERLAP of
        Some chunks \<Rightarrow> chunks
      | None \<Rightarrow> [])"

text \<open>
  The loop over the sampled pages. Rendering writes the JPEG into storage; the body of the
  \<open>try\<close> then encodes the file, appends the image block and unlinks the file; an
  exception anywhere in the body goes to the \<open>catch\<close>, which only logs.
\<close>

fun render_pages :: "env \<Rightarrow> string \<Rightarrow> nat list \<Rightarrow> asm \<Rightarrow> asm" where
  "render_pages e pdfPath [] a = a"
| "render_pages e pdfPath (pageNum # rest) a =
     (case render_result e pdfPath pageNum of
        Inl err \<Rightarrow> render_pages e pdfPath rest a
      | Inr imagePath \<Rightarrow>
          (case fileToBase64 e imagePath of
             Inl err \<Rightarrow>
               render_pages e pdfPath rest
                 (a\<lparr>a_world := (a_world a)\<lparr>stored := insert imagePath (stored (a_world a))\<rparr>\<rparr>)
           | Inr base64Data \<Rightarrow>
               render_pages e pdfPath rest
                 (a\<lparr>a_world :=
                      unlink_quiet e imagePath
                        ((a_world a)\<lparr>stored := insert imagePath (stored (a_world a))\<rparr>),
                    content := content a @ [ImageBlock ''image/jpeg'' base64Data]\<rparr>)))"

definition push :: "content_block \<Rightarrow> asm \<Rightarrow> asm" where
  "push b a = a\<lparr>content := content a @ [b]\<rparr>"

text \<open>The \<open>if (shouldRenderVisual)\<close> statement.\<close>

definition visual_fallback :: "env \<Rightarrow> bool \<Rightarrow> uploaded_file \<Rightarrow> nat \<Rightarrow> asm \<Rightarrow> asm" where
  "visual_fallback e canRenderPdfPages file pages a =
     (if \<not> canRenderPdfPages then push (TextBlock (image_heavy_notice (file_label file))) a
      else push (TextBlock (visual_end_marker (file_label file)))
             (render_pages e (path file) (cappedPages pages)
                (push (TextBlock (visual_start_marker (file_label file))) a)))"

definition chunk_blocks :: "string \<Rightarrow> string list \<Rightarrow> content_block list" where
  "chunk_blocks name chunks =
     (if length chunks = 0 then [TextBlock (no_text_marker name)]
      else map (\<lambda>i. TextBlock (chunk_marker name i (length chunks) (chunks ! i)))
             [0..<length chunks])"

text \<open>The body of the \<open>for (const file of files)\<close> loop; \<open>Inl\<close> is an exception leaving it.\<close>

definition process_file :: "env \<Rightarrow> bool \<Rightarrow> uploaded_file \<Rightarrow> asm \<Rightarrow> error \<times> world + asm" where
  "process_file e canRenderPdfPages file a =
     (let mediaType = getMediaType (file_label file) in
      if startsWith mediaType ''image/'' then
        (case fileToBase64 e (path file) of
           Inl err \<Rightarrow> Inl (err, a_world a)
         | Inr base64Data \<Rightarrow> Inr (push (ImageBlock mediaType base64Data) a))
      else if mediaType = ''application/pdf'' then
        (case extractPdfText e (path file) of
           Inl err \<Rightarrow> Inl (err, a_world a)
         | Inr (t, numpages) \<Rightarrow>
             (let textChars = length t;
                  chunks = pdf_chunks t;
                  pages = pages_of numpages;
                  a1 = a\<lparr>totalExtractedPdfChars := totalExtractedPdfChars a + textChars\<rparr>;
                  a2 = (if shouldRenderVisual textChars pages
                        then visual_fallback e canRenderPdfPages file pages a1 else a1);
                  a3 = a2\<lparr>pdfDiagnostics := pdfDiagnostics a2 @
                         [\<lparr>d_filename = file_label file, d_numpages = numpages,
                           d_textLength = textChars, d_chunkCount = length chunks\<rparr>]\<rparr>
              in Inr (a3\<lparr>content := content a3 @ chunk_blocks (file_label file) chunks\<rparr>)))
      else Inr a)"

fun process_files :: "env \<Rightarrow> bool \<Rightarrow> uploaded_file list \<Rightarrow> asm \<Rightarrow> error \<times> world + asm" where
  "process_files e canRenderPdfPages [] a = Inr a"
| "process_files e canRenderPdfPages (file # rest) a =
     (case process_file e canRenderPdfPages file a of
        Inl x \<Rightarrow> Inl x
      | Inr a' \<Rightarrow> process_files e canRenderPdfPages rest a')"

text \<open>\<open>message\<close> is optional; \<open>if (message)\<close> also skips the empty string.\<close>

definition createContentWithFiles ::
  "env \<Rightarrow> uploaded_file list \<Rightarrow> string option \<Rightarrow> world \<Rightarrow> error \<times> world + asm" where
  "createContentWithFiles e files message w =
     process_files e (pdftoppm_available e) files
       \<lparr>a_world = w,
        content = (if or_empty message \<noteq> [] then [TextBlock (or_empty message)] else []),
        pdfDiagnostics = [],
        totalExtractedPdfChars = 0\<rparr>"

section \<open>Multi-pass summarizer: runMultiPassBreakdown\<close>

definition notes_request :: "nat \<Rightarrow> nat \<Rightarrow> string \<Rightarrow> turn llm_request" where
  \<open>notes_request i n t =
     \<lparr>max_tokens = 2500,
      system = NOTES_SYSTEM_PROMPT,
      messages =
        [(User,
          [TextBlock
             (''Extract production notes from this chunk ('' @ show_nat (i + 1) @ ''/'' @
              show_nat n @ '').\<newline>\<newline>'' @ t)])]\<rparr>\<close>

text \<open>
  The loop \<open>for (let i = 0; i < textBlocks.length; i++)\<close>, over the text blocks paired
  with their indices; \<open>n\<close> is \<open>textBlocks.length\<close>. A failed request leaves the loop and
  the function.
\<close>

fun notes_loop ::
  "env \<Rightarrow> nat \<Rightarrow> (nat \<times> content_block) list \<Rightarrow> string list \<Rightarrow> world \<Rightarrow>
     (error + string list) \<times> world" where
  "notes_loop e n [] notes w = (Inr notes, w)"
| "notes_loop e n ((i, block) # rest) notes w =
     (if startsWith (block_text block) INSTRUCTION_PREFIX then notes_loop e n rest notes w
      else
        (case api_call e (notes_request i n (block_text block)) w of
           (Inl err, w') \<Rightarrow> (Inl err, w')
         | (Inr t, w') \<Rightarrow> notes_loop e n rest (notes @ [t]) w'))"

definition finalUserContent :: "content_block list \<Rightarrow> string list \<Rightarrow> content_block list" where
  \<open>finalUserContent imageBlocks notes =
     [TextBlock FINAL_INSTRUCTION] @ imageBlocks @
     [TextBlock
        (''\<newline>\<newline>===== EXTRACTED NOTES (MULTI-PASS) =====\<newline>'' @
         js_join ''\<newline>\<newline>---\<newline>\<newline>'' notes @
         ''\<newline>===== END EXTRACTED NOTES =====\<newline>'')]\<close>

definition final_request :: "content_block list \<Rightarrow> string list \<Rightarrow> turn llm_request" where
  "final_request imageBlocks notes =
     \<lparr>max_tokens = MAX_TOKENS, system = SYSTEM_PROMPT,
      messages = [(User, finalUserContent imageBlocks notes)]\<rparr>"

definition runMultiPassBreakdown ::
  "env \<Rightarrow> content_block list \<Rightarrow> world \<Rightarrow> (error + string) \<times> world" where
  "runMultiPassBreakdown e originalContent w =
     (let imageBlocks = filter is_image originalContent;
          textBlocks = filter is_text originalContent
      in case notes_loop e (length textBlocks) (zip [0..<length textBlocks] textBlocks) [] w of
           (Inl err, w') \<Rightarrow> (Inl err, w')
         | (Inr notes, w') \<Rightarrow> api_call e (final_request imageBlocks notes) w')"

text \<open>
  The notes pass as the specification words it, for comparison with \<open>notes_loop\<close>: every
  block it is given receives its own request, whatever its text, and the notes are collected
  in the order of the blocks. The specification gives it all text blocks but the leading
  one.
\<close>

fun spec_notes_pass ::
  "env \<Rightarrow> nat \<Rightarrow> (nat \<times> content_block) list \<Rightarrow> string list \<Rightarrow> world \<Rightarrow>
     (error + string list) \<times> world" where
  "spec_notes_pass e n [] notes w = (Inr notes, w)"
| "spec_notes_pass e n ((i, block) # rest) notes w =
     (case api_call e (notes_request i n (block_text block)) w of
        (Inl err, w') \<Rightarrow> (Inl err, w')
      | (Inr t, w') \<Rightarrow> spec_notes_pass e n rest (notes @ [t]) w')"

section \<open>Orchestrator: POST /api/generate-breakdown\<close>

definition direct_request :: "content_block list \<Rightarrow> turn llm_request" where
  "direct_request c =
     \<lparr>max_tokens = MAX_TOKENS, system = SYSTEM_PROMPT, messages = [(User, c)]\<rparr>"

definition MISSING_KEY_MESSAGE :: string where
  \<open>MISSING_KEY_MESSAGE =
     ''Server is missing ANTHROPIC_API_KEY environment variable. Set it and restart the server.''\<close>

text \<open>The \<open>if (totalExtractedPdfChars > MULTIPASS_THRESHOLD_CHARS)\<close> statement.\<close>

definition synthesize :: "env \<Rightarrow> asm \<Rightarrow> (error + string) \<times> world" where
  "synthesize e a =
     (if totalExtractedPdfChars a > MULTIPASS_THRESHOLD_CHARS
      then runMultiPassBreakdown e (content a) (a_world a)
      else api_call e (direct_request (content a)) (a_world a))"

text \<open>The \<open>try\<close> block with its \<open>catch\<close>.\<close>

definition generate_try :: "env \<Rightarrow> uploaded_file list \<Rightarrow> world \<Rightarrow> turn list response \<times> world" where
  \<open>generate_try e files w =
     (if length files = 0 then (ErrorResponse 400 ''No files uploaded'', w)
      else if \<not> api_key_set e then (ErrorResponse 500 MISSING_KEY_MESSAGE, w)
      else
        (case createContentWithFiles e files (Some GENERATE_INSTRUCTION) w of
           Inl (err, w1) \<Rightarrow> (ErrorResponse 500 ''Failed to generate breakdown'', w1)
         | Inr a \<Rightarrow>
             (case synthesize e a of
                (Inl err, w2) \<Rightarrow> (ErrorResponse 500 ''Failed to generate breakdown'', w2)
              | (Inr breakdown, w2) \<Rightarrow>
                  (BreakdownResponse breakdown
                     [(User, content a), (Assistant, [TextBlock breakdown])], w2))))\<close>

text \<open>The \<open>finally\<close> block: \<open>for (const p of cleanupPaths) await fs.unlink(p).catch(() => {})\<close>.\<close>

fun cleanup :: "env \<Rightarrow> string list \<Rightarrow> world \<Rightarrow> world" where
  "cleanup e [] w = w"
| "cleanup e (p # ps) w = cleanup e ps (unlink_quiet e p w)"

text \<open>The handler: the response it sends and the world it leaves.\<close>

definition generate_breakdown ::
  "env \<Rightarrow> uploaded_file list \<Rightarrow> world \<Rightarrow> turn list response \<times> world" where
  "generate_breakdown e files w =
     (let cleanupPaths = map path files
      in case generate_try e files w of (res, w') \<Rightarrow> (res, cleanup e cleanupPaths w'))"

section \<open>Orchestrator: POST /api/revise-breakdown\<close>

text \<open>
  The conversation history comes from the request body as parsed JSON and is not checked,
  so it is a JSON value.
\<close>

datatype json =
  JNull
| JBool bool
| JNum rat
| JStr string
| JArr "json list"
| JObj "(string \<times> json) list"

text \<open>
  The body of a revise request: the two texts (an absent one is the empty string) and the
  history (\<open>None\<close> when the key is absent).
\<close>

record revise_body =
  revisionRequest :: string
  currentBreakdown :: string
  conversationHistory :: "json option"

record revise_env =
  r_api_key_set :: bool
  r_messages_create :: "json llm_request \<Rightarrow> error + string option"

fun truthy :: "json \<Rightarrow> bool" where
  "truthy JNull = False"
| "truthy (JBool b) = b"
| "truthy (JNum x) = (x \<noteq> 0)"
| "truthy (JStr s) = (s \<noteq> [])"
| "truthy (JArr xs) = True"
| "truthy (JObj kvs) = True"

text \<open>\<open>conversationHistory || []\<close>.\<close>

definition history_or_empty :: "json option \<Rightarrow> json" where
  "history_or_empty h =
     (case h of None \<Rightarrow> JArr [] | Some v \<Rightarrow> if truthy v then v else JArr [])"

text \<open>
  The spread \<open>...v\<close> inside an array literal: the elements of an array, the characters
  of a string, a \<open>TypeError\<close> for a value that is not iterable.
\<close>

fun spread :: "json \<Rightarrow> error + json list" where
  "spread (JArr xs) = Inr xs"
| "spread (JStr s) = Inr (map (\<lambda>c. JStr [c]) s)"
| "spread v = Inl (TypeError ''not iterable'')"

definition text_turn :: "string \<Rightarrow> string \<Rightarrow> json" where
  \<open>text_turn r t =
     JObj [(''role'', JStr r),
           (''content'', JArr [JObj [(''type'', JStr ''text''), (''text'', JStr t)] ])]\<close>

definition revision_text :: "string \<Rightarrow> string \<Rightarrow> string" where
  \<open>revision_text request breakdown =
     ''Please revise the breakdown based on this feedback: '' @ request @ ''\<newline>\<newline>'' @
     ''Current breakdown:\<newline>'' @ breakdown\<close>

definition revise_breakdown :: "revise_env \<Rightarrow> revise_body \<Rightarrow> json list response" where
  \<open>revise_breakdown e body =
     (if revisionRequest body = [] \<or> currentBreakdown body = []
      then ErrorResponse 400 ''Missing required data''
      else if \<not> r_api_key_set e then ErrorResponse 500 MISSING_KEY_MESSAGE
      else
        (case spread (history_or_empty (conversationHistory body)) of
           Inl err \<Rightarrow> ErrorResponse 500 ''Failed to revise breakdown''
         | Inr history \<Rightarrow>
             (let msgs = history @
                    [text_turn ''user''
                       (revision_text (revisionRequest body) (currentBreakdown body))]
              in case r_messages_create e
                        \<lparr>max_tokens = MAX_TOKENS, system = SYSTEM_PROMPT, messages = msgs\<rparr> of
                   Inl err \<Rightarrow> ErrorResponse 500 ''Failed to revise breakdown''
                 | Inr t \<Rightarrow>
                     BreakdownResponse (or_empty t)
                       (msgs @ [text_turn ''assistant'' (or_empty t)]))))\<close>

section \<open>Example requests\<close>

text \<open>
  Concrete inputs on which the theorems below are instantiated: one uploaded PDF, the
  storage that holds it, an outside world that reads only that file, answers every request
  to the service and renders page 1, and PDF backends that fail, find no text in a
  one-page scan, or find \<open>n\<close> characters on \<open>pageCount\<close> pages.
\<close>

definition ex_text :: string where
  "ex_text = [CHR ''a'', CHR 0x0D, CHR 0x0A, CHR ''b'']"

definition ex_text_normalised :: string where
  "ex_text_normalised = [CHR ''a'', CHR 0x0A, CHR ''b'']"

definition ex_pdf :: uploaded_file where
  "ex_pdf = \<lparr>originalname = ''brief.pdf'', filename = ''1700000000000-brief.pdf'',
             path = ''uploads/1700000000000-brief.pdf''\<rparr>"

definition ex_world :: world where
  "ex_world = \<lparr>stored = {''uploads/1700000000000-brief.pdf''}, calls = []\<rparr>"

definition ex_env ::
  "(error + (string \<Rightarrow> error + string option \<times> nat option)) \<Rightarrow> bool \<Rightarrow> env" where
  "ex_env backend can_render =
     \<lparr>api_key_set = True,
      readFile = (\<lambda>p. if p = ''uploads/1700000000000-brief.pdf'' then Inr ''%PDF-1.7''
                      else Inl (IOError ''EIO'')),
      base64 = (\<lambda>b. if b = ''%PDF-1.7'' then ''JVBERi0xLjc='' else []),
      pdf_backend = backend,
      pdftoppm_available = can_render,
      render_result = (\<lambda>p n. if n = 1 then Inr ''uploads/brief-page-1.jpg''
                             else Inl (RenderError ''pdftoppm produced no JPEG output'')),
      unlink_error = (\<lambda>p. None),
      messages_create = (\<lambda>log r. Inr (Some ''SHOOT DAYS: 2''))\<rparr>"

definition failing_backend :: "error + (string \<Rightarrow> error + string option \<times> nat option)" where
  "failing_backend = Inl (ExtractionError ''Unsupported pdf-parse module shape'')"

definition scanned_backend :: "error + (string \<Rightarrow> error + string option \<times> nat option)" where
  "scanned_backend = Inr (\<lambda>buffer. Inr (Some [], Some 1))"

definition text_backend ::
  "nat \<Rightarrow> nat \<Rightarrow> error + (string \<Rightarrow> error + string option \<times> nat option)" where
  "text_backend n pageCount = Inr (\<lambda>buffer. Inr (Some (replicate n (CHR ''a'')), Some pageCount))"

definition ex_revise_env :: revise_env where
  "ex_revise_env = \<lparr>r_api_key_set = True, r_messages_create = (\<lambda>r. Inr (Some ''SHOOT DAYS: 3''))\<rparr>"

definition ex_history :: "json list" where
  "ex_history = [text_turn ''user'' ''Please analyze'', text_turn ''assistant'' ''SHOOT DAYS: 2'']"

definition ex_body :: "json option \<Rightarrow> revise_body" where
  "ex_body h = \<lparr>revisionRequest = ''three days'', currentBreakdown = ''SHOOT DAYS: 2'',
                conversationHistory = h\<rparr>"

text \<open>
  An outside world whose service answers the \<open>k\<close>-th request of a run with
  \<open>ex_note k\<close>, one whose file system refuses every unlink, and the content assembled
  from a PDF with 40001 characters on 100 pages: the instruction and four chunk blocks,
  with the four notes requests they receive.
\<close>

definition ex_note :: "nat \<Rightarrow> string" where
  "ex_note k =
     (if k = 0 then ''SHOOT DAYS: 2''
      else if k = 1 then ''CREW: Director 1x''
      else if k = 2 then ''LOCATIONS: studio''
      else if k = 3 then ''TALENTS: 2 leads''
      else ''PRODUCTION BREAKDOWN'')"

definition ex_notes :: "string list" where
  "ex_notes = [ex_note 0, ex_note 1, ex_note 2, ex_note 3]"

definition ex_env_notes ::
  "(error + (string \<Rightarrow> error + string option \<times> nat option)) \<Rightarrow> bool \<Rightarrow> env" where
  "ex_env_notes backend can_render =
     (ex_env backend can_render)\<lparr>messages_create := (\<lambda>log r. Inr (Some (ex_note (length log))))\<rparr>"

definition ex_env_refusing ::
  "(error + (string \<Rightarrow> error + string option \<times> nat option)) \<Rightarrow> bool \<Rightarrow> env" where
  "ex_env_refusing backend can_render =
     (ex_env backend can_render)\<lparr>unlink_error := (\<lambda>p. Some (IOError ''EPERM''))\<rparr>"

definition ex_long_content :: "content_block list" where
  "ex_long_content =
     [TextBlock GENERATE_INSTRUCTION,
      TextBlock (chunk_marker ''brief.pdf'' 0 4 (replicate 12000 (CHR ''a''))),
      TextBlock (chunk_marker ''brief.pdf'' 1 4 (replicate 12000 (CHR ''a''))),
      TextBlock (chunk_marker ''brief.pdf'' 2 4 (replicate 12000 (CHR ''a''))),
      TextBlock (chunk_marker ''brief.pdf'' 3 4 (replicate 5801 (CHR ''a'')))]"

definition ex_long_asm :: asm where
  "ex_long_asm =
     \<lparr>a_world = ex_world,
      content = ex_long_content,
      pdfDiagnostics =
        [\<lparr>d_filename = ''brief.pdf'', d_numpages = Some 100, d_textLength = 40001,
          d_chunkCount = 4\<rparr>],
      totalExtractedPdfChars = 40001\<rparr>"

definition ex_long_requests :: "turn llm_request list" where
  "ex_long_requests =
     [notes_request 1 5 (chunk_marker ''brief.pdf'' 0 4 (replicate 12000 (CHR ''a''))),
      notes_request 2 5 (chunk_marker ''brief.pdf'' 1 4 (replicate 12000 (CHR ''a''))),
      notes_request 3 5 (chunk_marker ''brief.pdf'' 2 4 (replicate 12000 (CHR ''a''))),
      notes_request 4 5 (chunk_marker ''brief.pdf'' 3 4 (replicate 5801 (CHR ''a'')))]"

text \<open>
  The number of pages that the sampling loop adds when it starts at \<open>p\<close>.
\<close>

definition sample_count :: "nat \<Rightarrow> nat \<Rightarrow> nat" where
  "sample_count pages p = (if p \<le> pages then Suc ((pages - p) div interval_of pages) else 0)"

section \<open>Lemmas: chunker\<close>

lemma chunk_loop_run:
  assumes "overlap < chunkSize"
  shows "start < length clean \<Longrightarrow>
    \<exists>new. chunk_loop clean chunkSize overlap start chunks = Some (chunks @ new) \<and> new \<noteq> [] \<and>
       length (hd new) = min chunkSize (length clean - start) \<and>
       reconstruct overlap new = drop start clean"
proof (induction "length clean - start" arbitrary: start chunks rule: less_induct)
  case less
  let ?n = "length clean"
  let ?e = "min (start + chunkSize) ?n"
  let ?c = "js_slice clean start ?e"
  have len_c: "length ?c = min chunkSize (?n - start)"
    using less.prems by (auto simp: js_slice_def min_def)
  show ?case
  proof (cases "?e \<ge> ?n")
    case True
    then have "chunk_loop clean chunkSize overlap start chunks = Some (chunks @ [?c])"
      using less.prems by (subst chunk_loop.simps) simp
    moreover have "?c = drop start clean"
      using True by (simp add: js_slice_def)
    ultimately show ?thesis using len_c by (intro exI[of _ "[?c]"]) simp
  next
    case False
    then have e: "?e = start + chunkSize" "start + chunkSize < ?n" by auto
    let ?s = "?e - overlap"
    have s: "start < ?s" "?s < ?n" using e assms by auto
    have step: "chunk_loop clean chunkSize overlap start chunks
        = chunk_loop clean chunkSize overlap ?s (chunks @ [?c])"
      using less.prems False by (subst chunk_loop.simps) simp
    from s have "?n - ?s < ?n - start" by arith
    from less.hyps[OF this s(2), of "chunks @ [?c]"]
    obtain new where new: "chunk_loop clean chunkSize overlap ?s (chunks @ [?c]) = Some ((chunks @ [?c]) @ new)"
      "new \<noteq> []" "length (hd new) = min chunkSize (?n - ?s)" "reconstruct overlap new = drop ?s clean"
      by blast
    obtain r rs where rs: "new = r # rs" using new(2) by (cases new) auto
    have lr: "overlap \<le> length r" using new(3) rs s e assms by auto
    have "drop overlap r @ concat (map (drop overlap) rs)
        = drop overlap (r @ concat (map (drop overlap) rs))"
      using lr by simp
    also have "\<dots> = drop overlap (drop ?s clean)"
      using new(4) rs by simp
    also have "\<dots> = drop (start + chunkSize) clean"
      using e assms by (simp del: drop_append)
    finally have rest: "drop overlap r @ concat (map (drop overlap) rs) = drop (start + chunkSize) clean" .
    have c: "?c = take chunkSize (drop start clean)" using e by (simp add: js_slice_def)
    have "reconstruct overlap (?c # new) = take chunkSize (drop start clean) @ drop chunkSize (drop start clean)"
      using rest rs c by (simp add: add.commute)
    also have "\<dots> = drop start clean" by (rule append_take_drop_id)
    finally have "reconstruct overlap (?c # new) = drop start clean" .
    then show ?thesis using step new(1) len_c
      by (intro exI[of _ "?c # new"]) simp
  qed
qed

lemma js_trim_nonempty: "js_trim s \<noteq> [] \<Longrightarrow> s \<noteq> []"
  by (auto simp: js_trim_def)

lemma chunkText_ok:
  assumes "overlap < chunkSize"
  shows "\<exists>cs. chunkText T chunkSize overlap = Some cs \<and>
     (if js_trim (replace_crlf T) = [] then cs = []
      else cs \<noteq> [] \<and> reconstruct overlap cs = replace_crlf T)"
proof (cases "js_trim (replace_crlf T) = []")
  case True then show ?thesis by (simp add: chunkText_def)
next
  case False
  then have "0 < length (replace_crlf T)" using js_trim_nonempty by auto
  from chunk_loop_run[OF assms this, of "[]"] False show ?thesis
    by (auto simp: chunkText_def)
qed

lemma pdf_chunks_total:
  "\<exists>chunks. chunkText t PDF_TEXT_CHUNK_CHARS PDF_TEXT_CHUNK_OVERLAP = Some chunks"
proof -
  have "PDF_TEXT_CHUNK_OVERLAP < PDF_TEXT_CHUNK_CHARS"
    by (simp add: PDF_TEXT_CHUNK_OVERLAP_def PDF_TEXT_CHUNK_CHARS_def)
  from chunkText_ok[OF this, of t] show ?thesis by blast
qed

section \<open>Lemmas: page sampling and the fallback decision\<close>

lemma interval_of_ge2: "2 \<le> interval_of pages"
  by (simp add: interval_of_def)

lemma sample_count_step:
  "p \<le> pages \<Longrightarrow> sample_count pages p = Suc (sample_count pages (p + interval_of pages))"
proof -
  assume p: "p \<le> pages"
  have i: "0 < interval_of pages" using interval_of_ge2[of pages] by simp
  show ?thesis
  proof (cases "p + interval_of pages \<le> pages")
    case True
    then have "(pages - p) div interval_of pages
        = Suc ((pages - p - interval_of pages) div interval_of pages)"
      using i le_div_geq[of "interval_of pages" "pages - p"] by simp
    then show ?thesis using p True by (simp add: sample_count_def)
  next
    case False
    then have "(pages - p) div interval_of pages = 0" using p by simp
    then show ?thesis using p False by (simp add: sample_count_def)
  qed
qed

lemma sample_loop_closed:
  "sample_loop pages p acc
     = acc @ map (\<lambda>k. p + k * interval_of pages) [0..<sample_count pages p]"
proof (induction pages p acc rule: sample_loop.induct)
  case (1 pages p acc)
  show ?case
  proof (cases "p \<le> pages")
    case True
    have "map (\<lambda>k. p + k * interval_of pages) [0..<Suc (sample_count pages (p + interval_of pages))]
        = p # map (\<lambda>k. p + interval_of pages + k * interval_of pages) [0..<sample_count pages (p + interval_of pages)]"
      by (subst map_upt_Suc) simp
    then show ?thesis
      using True "1.IH"[OF True] sample_count_step[OF True]
      by (subst sample_loop.simps) simp
  next
    case False
    then show ?thesis by (subst sample_loop.simps) (simp add: sample_count_def)
  qed
qed

lemma samplePages_closed:
  assumes "0 < pages"
  shows "samplePages pages
     = map (\<lambda>k. 1 + k * interval_of pages) [0..<Suc ((pages - 1) div interval_of pages)]"
proof -
  have "1 \<le> pages" using assms by simp
  from sample_count_step[OF this]
  have "sample_count pages 1 = Suc (sample_count pages (1 + interval_of pages))" .
  moreover have "sample_count pages 1 = Suc ((pages - 1) div interval_of pages)"
    using assms by (simp add: sample_count_def)
  ultimately have c: "Suc (sample_count pages (1 + interval_of pages))
      = Suc ((pages - 1) div interval_of pages)" by simp
  have "samplePages pages = 1 # map (\<lambda>k. 1 + interval_of pages + k * interval_of pages)
          [0..<sample_count pages (1 + interval_of pages)]"
    by (simp add: samplePages_def sample_loop_closed)
  also have "\<dots> = map (\<lambda>k. 1 + k * interval_of pages) [0..<Suc (sample_count pages (1 + interval_of pages))]"
    by (subst map_upt_Suc) simp
  finally show ?thesis using c by simp
qed

lemma dedupe_acc:
  "distinct (seen @ xs) \<Longrightarrow>
   foldl (\<lambda>seen x. if x \<in> set seen then seen else seen @ [x]) seen xs = seen @ xs"
  by (induction xs arbitrary: seen) auto

lemma dedupe_distinct: "distinct xs \<Longrightarrow> dedupe xs = xs"
  using dedupe_acc[of "[]" xs] by (simp add: dedupe_def)

lemma progression_distinct: "0 < i \<Longrightarrow> distinct (map (\<lambda>k. 1 + k * i) [0..<n])"
  by (simp add: distinct_map inj_on_def)

lemma uniquePages_closed:
  assumes "0 < pages"
  shows "uniquePages pages
     = map (\<lambda>k. 1 + k * interval_of pages) [0..<Suc ((pages - 1) div interval_of pages)]"
proof -
  let ?i = "interval_of pages"
  let ?xs = "map (\<lambda>k. 1 + k * ?i) [0..<Suc ((pages - 1) div ?i)]"
  have i: "0 < ?i" using interval_of_ge2[of pages] by simp
  have d: "dedupe ?xs = ?xs" by (rule dedupe_distinct) (rule progression_distinct[OF i])
  have "\<forall>p \<in> set ?xs. p \<ge> 1 \<and> p \<le> pages"
  proof
    fix p assume "p \<in> set ?xs"
    then have "\<exists>k. p = 1 + k * ?i \<and> k \<le> (pages - 1) div ?i"
      by (auto simp: less_Suc_eq_le)
    then obtain k where k: "p = 1 + k * ?i" "k \<le> (pages - 1) div ?i" by blast
    have "k * ?i \<le> ((pages - 1) div ?i) * ?i" using k(2) by simp
    also have "\<dots> \<le> pages - 1" by simp
    finally show "p \<ge> 1 \<and> p \<le> pages" using k(1) assms by simp
  qed
  then have "filter (\<lambda>p. p \<ge> 1 \<and> p \<le> pages) ?xs = ?xs" by (simp only: filter_True)
  then show ?thesis using d by (simp only: uniquePages_def samplePages_closed[OF assms])
qed

lemma uniquePages_20: "uniquePages 20 = [1, 5, 9, 13, 17]"
  by (simp add: uniquePages_closed interval_of_def upt_conv_Cons)

lemma uniquePages_range: "\<forall>p \<in> set (uniquePages pages). 1 \<le> p \<and> p \<le> pages"
  by (simp add: uniquePages_def)

lemma cappedPages_take: "cappedPages pages = take VISUAL_RENDER_MAX_PAGES (uniquePages pages)"
  by (simp add: cappedPages_def js_slice_def)

lemma cappedPages_20: "cappedPages 20 = [1, 5, 9, 13, 17]"
  unfolding cappedPages_take uniquePages_20 by (simp add: VISUAL_RENDER_MAX_PAGES_def)

lemma shouldRenderVisual_nat: "shouldRenderVisual textChars pages \<longleftrightarrow>
   pages > 0 \<and> (textChars < 1500 \<or> textChars < 120 * pages)"
proof (cases "pages > 0")
  case False then show ?thesis by (simp add: shouldRenderVisual_def)
next
  case True
  have "(real textChars / real pages < 120) = (real textChars < 120 * real pages)"
    using True by (simp add: pos_divide_less_eq)
  also have "\<dots> = (real textChars < real (120 * pages))" by simp
  also have "\<dots> = (textChars < 120 * pages)" by (rule of_nat_less_iff)
  finally show ?thesis using True
    by (simp add: shouldRenderVisual_def charsPerPage_def VISUAL_FALLBACK_MIN_TEXT_CHARS_def
      VISUAL_FALLBACK_MAX_CHARS_PER_PAGE_def)
qed

lemma cappedPages_1: "cappedPages 1 = [1]"
  by (simp add: cappedPages_def js_slice_def uniquePages_def samplePages_def dedupe_def
     sample_loop.simps interval_of_def VISUAL_RENDER_MAX_PAGES_def)

lemma shouldRenderVisual_0_1: "shouldRenderVisual 0 1"
  by (simp add: shouldRenderVisual_def VISUAL_FALLBACK_MIN_TEXT_CHARS_def)

section \<open>Lemmas: what the assembler emits\<close>

lemma not_instruction_if_other_head:
  "c \<noteq> CHR ''P'' \<Longrightarrow> \<not> startsWith (c # t) INSTRUCTION_PREFIX"
  by (auto simp: startsWith_def INSTRUCTION_PREFIX_def take_Cons')

lemma empty_not_instruction: "\<not> startsWith [] INSTRUCTION_PREFIX"
  by (simp add: startsWith_def INSTRUCTION_PREFIX_def)

lemma markers_not_instruction:
  "\<not> startsWith (image_heavy_notice name) INSTRUCTION_PREFIX"
  "\<not> startsWith (visual_start_marker name) INSTRUCTION_PREFIX"
  "\<not> startsWith (visual_end_marker name) INSTRUCTION_PREFIX"
  "\<not> startsWith (no_text_marker name) INSTRUCTION_PREFIX"
  "\<not> startsWith (chunk_marker name i n chunk) INSTRUCTION_PREFIX"
  by (simp_all add: image_heavy_notice_def visual_start_marker_def visual_end_marker_def
      no_text_marker_def chunk_marker_def not_instruction_if_other_head)

lemma generate_instruction_is_instruction: "startsWith GENERATE_INSTRUCTION INSTRUCTION_PREFIX"
  by (simp add: startsWith_def GENERATE_INSTRUCTION_def INSTRUCTION_PREFIX_def)

lemma render_pages_inv:
  "\<exists>imgs. content (render_pages e p ps a) = content a @ imgs \<and>
     (\<forall>b \<in> set imgs. is_image b) \<and>
     calls (a_world (render_pages e p ps a)) = calls (a_world a) \<and>
     totalExtractedPdfChars (render_pages e p ps a) = totalExtractedPdfChars a \<and>
     pdfDiagnostics (render_pages e p ps a) = pdfDiagnostics a"
proof (induction ps arbitrary: a)
  case Nil
  then show ?case by simp
next
  case (Cons pageNum rest)
  show ?case
  proof (cases "render_result e p pageNum")
    case (Inl err)
    then show ?thesis using Cons.IH[of a] by simp
  next
    case (Inr imagePath)
    note r = this
    show ?thesis
    proof (cases "fileToBase64 e imagePath")
      case (Inl err)
      let ?a = "a\<lparr>a_world := (a_world a)\<lparr>stored := insert imagePath (stored (a_world a))\<rparr>\<rparr>"
      from Cons.IH[of ?a] r Inl show ?thesis by simp
    next
      case (Inr d)
      let ?a = "a\<lparr>a_world := unlink_quiet e imagePath
                        ((a_world a)\<lparr>stored := insert imagePath (stored (a_world a))\<rparr>),
                    content := content a @ [ImageBlock ''image/jpeg'' d]\<rparr>"
      have c: "calls (a_world ?a) = calls (a_world a)"
        by (simp add: unlink_quiet_def unlink_def split: option.splits)
      from Cons.IH[of ?a] obtain imgs where
        i: "content (render_pages e p rest ?a) = content ?a @ imgs"
           "\<forall>b \<in> set imgs. is_image b"
           "calls (a_world (render_pages e p rest ?a)) = calls (a_world ?a)"
           "totalExtractedPdfChars (render_pages e p rest ?a) = totalExtractedPdfChars ?a"
           "pdfDiagnostics (render_pages e p rest ?a) = pdfDiagnostics ?a"
        by blast
      have step: "render_pages e p (pageNum # rest) a = render_pages e p rest ?a"
        using r Inr by simp
      show ?thesis
        unfolding step using i c
        by (intro exI[of _ "ImageBlock ''image/jpeg'' d # imgs"]) simp
    qed
  qed
qed

lemma visual_fallback_inv:
  "\<exists>new. content (visual_fallback e cr f pages a) = content a @ new \<and> new \<noteq> [] \<and>
     (\<forall>b \<in> set new. \<not> startsWith (block_text b) INSTRUCTION_PREFIX) \<and>
     calls (a_world (visual_fallback e cr f pages a)) = calls (a_world a) \<and>
     totalExtractedPdfChars (visual_fallback e cr f pages a) = totalExtractedPdfChars a"
proof (cases cr)
  case False
  then show ?thesis
    by (simp add: visual_fallback_def push_def markers_not_instruction)
next
  case True
  let ?a = "push (TextBlock (visual_start_marker (file_label f))) a"
  from render_pages_inv[of e "path f" "cappedPages pages" ?a] obtain imgs where
    i: "content (render_pages e (path f) (cappedPages pages) ?a) = content ?a @ imgs"
       "\<forall>b \<in> set imgs. is_image b"
       "calls (a_world (render_pages e (path f) (cappedPages pages) ?a)) = calls (a_world ?a)"
       "totalExtractedPdfChars (render_pages e (path f) (cappedPages pages) ?a) = totalExtractedPdfChars ?a"
    by blast
  have img: "\<forall>b \<in> set imgs. \<not> startsWith (block_text b) INSTRUCTION_PREFIX"
  proof
    fix b assume "b \<in> set imgs"
    then have "is_image b" using i(2) by blast
    then show "\<not> startsWith (block_text b) INSTRUCTION_PREFIX"
      by (cases b) (simp_all add: empty_not_instruction)
  qed
  show ?thesis
    using True i img
    by (intro exI[of _ "TextBlock (visual_start_marker (file_label f)) # imgs @
          [TextBlock (visual_end_marker (file_label f))]"])
       (simp add: visual_fallback_def push_def markers_not_instruction)
qed

lemma chunk_blocks_inv:
  "chunk_blocks name chunks \<noteq> []"
  "\<forall>b \<in> set (chunk_blocks name chunks). is_text b"
  "\<forall>b \<in> set (chunk_blocks name chunks). \<not> startsWith (block_text b) INSTRUCTION_PREFIX"
  by (auto simp: chunk_blocks_def markers_not_instruction)

lemma process_file_inv:
  assumes "process_file e cr f a = Inr a'"
  shows "\<exists>new. content a' = content a @ new \<and>
     (\<forall>b \<in> set new. \<not> startsWith (block_text b) INSTRUCTION_PREFIX) \<and>
     calls (a_world a') = calls (a_world a) \<and>
     totalExtractedPdfChars a \<le> totalExtractedPdfChars a' \<and>
     (totalExtractedPdfChars a < totalExtractedPdfChars a' \<longrightarrow> (\<exists>b \<in> set new. is_text b))"
proof -
  let ?mt = "getMediaType (file_label f)"
  consider (img) "startsWith ?mt ''image/''"
    | (pdf) "\<not> startsWith ?mt ''image/''" "?mt = ''application/pdf''"
    | (other) "\<not> startsWith ?mt ''image/''" "?mt \<noteq> ''application/pdf''"
    by blast
  then show ?thesis
  proof cases
    case img
    then obtain d where "a' = push (ImageBlock ?mt d) a"
      using assms by (auto simp: process_file_def split: sum.splits)
    then show ?thesis
      by (intro exI[of _ "[ImageBlock ?mt d]"]) (simp add: push_def empty_not_instruction)
  next
    case other
    then have "a' = a" using assms by (simp add: process_file_def)
    then show ?thesis by simp
  next
    case pdf
    then obtain t numpages where ex: "extractPdfText e (path f) = Inr (t, numpages)"
      using assms by (auto simp: process_file_def split: sum.splits)
    let ?a1 = "a\<lparr>totalExtractedPdfChars := totalExtractedPdfChars a + length t\<rparr>"
    let ?a2 = "if shouldRenderVisual (length t) (pages_of numpages)
               then visual_fallback e cr f (pages_of numpages) ?a1 else ?a1"
    have a': "content a' = content ?a2 @ chunk_blocks (file_label f) (pdf_chunks t)"
      "calls (a_world a') = calls (a_world ?a2)"
      "totalExtractedPdfChars a' = totalExtractedPdfChars ?a2"
      using assms pdf ex by (auto simp: process_file_def Let_def)
    obtain vis where vis: "content ?a2 = content a @ vis"
      "\<forall>b \<in> set vis. \<not> startsWith (block_text b) INSTRUCTION_PREFIX"
      "calls (a_world ?a2) = calls (a_world a)"
      "totalExtractedPdfChars ?a2 = totalExtractedPdfChars a + length t"
    proof (cases "shouldRenderVisual (length t) (pages_of numpages)")
      case True
      from visual_fallback_inv[of e cr f "pages_of numpages" ?a1] True that
      show ?thesis by auto
    next
      case False
      then show ?thesis using that[of "[]"] by simp
    qed
    obtain b where b: "b \<in> set (chunk_blocks (file_label f) (pdf_chunks t))" "is_text b"
      using chunk_blocks_inv(1,2)[of "file_label f" "pdf_chunks t"]
      by (cases "chunk_blocks (file_label f) (pdf_chunks t)") auto
    show ?thesis
      using a' vis chunk_blocks_inv(3)[of "file_label f" "pdf_chunks t"] b
      by (intro exI[of _ "vis @ chunk_blocks (file_label f) (pdf_chunks t)"]) auto
  qed
qed

lemma process_files_inv:
  "process_files e cr files a = Inr a' \<Longrightarrow>
   \<exists>new. content a' = content a @ new \<and>
     (\<forall>b \<in> set new. \<not> startsWith (block_text b) INSTRUCTION_PREFIX) \<and>
     calls (a_world a') = calls (a_world a) \<and>
     totalExtractedPdfChars a \<le> totalExtractedPdfChars a' \<and>
     (totalExtractedPdfChars a < totalExtractedPdfChars a' \<longrightarrow> (\<exists>b \<in> set new. is_text b))"
proof (induction files arbitrary: a)
  case Nil
  then show ?case by simp
next
  case (Cons f rest)
  then obtain a1 where a1: "process_file e cr f a = Inr a1" "process_files e cr rest a1 = Inr a'"
    by (auto split: sum.splits)
  from process_file_inv[OF a1(1)] obtain n1 where
    n1: "content a1 = content a @ n1"
        "\<forall>b \<in> set n1. \<not> startsWith (block_text b) INSTRUCTION_PREFIX"
        "calls (a_world a1) = calls (a_world a)"
        "totalExtractedPdfChars a \<le> totalExtractedPdfChars a1"
        "totalExtractedPdfChars a < totalExtractedPdfChars a1 \<longrightarrow> (\<exists>b \<in> set n1. is_text b)"
    by blast
  from Cons.IH[OF a1(2)] obtain n2 where
    n2: "content a' = content a1 @ n2"
        "\<forall>b \<in> set n2. \<not> startsWith (block_text b) INSTRUCTION_PREFIX"
        "calls (a_world a') = calls (a_world a1)"
        "totalExtractedPdfChars a1 \<le> totalExtractedPdfChars a'"
        "totalExtractedPdfChars a1 < totalExtractedPdfChars a' \<longrightarrow> (\<exists>b \<in> set n2. is_text b)"
    by blast
  have "totalExtractedPdfChars a < totalExtractedPdfChars a' \<longrightarrow> (\<exists>b \<in> set (n1 @ n2). is_text b)"
  proof
    assume "totalExtractedPdfChars a < totalExtractedPdfChars a'"
    then have "totalExtractedPdfChars a < totalExtractedPdfChars a1 \<or>
               totalExtractedPdfChars a1 < totalExtractedPdfChars a'" by arith
    then show "\<exists>b \<in> set (n1 @ n2). is_text b" using n1(5) n2(5) by auto
  qed
  then show ?case using n1 n2
    by (intro exI[of _ "n1 @ n2"]) auto
qed

lemma assembled_shape:
  assumes "createContentWithFiles e files (Some GENERATE_INSTRUCTION) w = Inr a"
  shows "\<exists>new. content a = TextBlock GENERATE_INSTRUCTION # new \<and>
     (\<forall>b \<in> set new. \<not> startsWith (block_text b) INSTRUCTION_PREFIX) \<and>
     calls (a_world a) = calls w \<and>
     (0 < totalExtractedPdfChars a \<longrightarrow> (\<exists>b \<in> set new. is_text b))"
proof -
  have ne: "or_empty (Some GENERATE_INSTRUCTION) \<noteq> []"
    by (simp add: or_empty_def GENERATE_INSTRUCTION_def)
  have p: "process_files e (pdftoppm_available e) files
       \<lparr>a_world = w,
        content = (if or_empty (Some GENERATE_INSTRUCTION) \<noteq> []
                   then [TextBlock (or_empty (Some GENERATE_INSTRUCTION))] else []),
        pdfDiagnostics = [], totalExtractedPdfChars = 0\<rparr> = Inr a"
    using assms unfolding createContentWithFiles_def .
  from process_files_inv[OF p] ne
  show ?thesis by (auto simp: or_empty_def)
qed

lemma assembled_text_blocks:
  assumes "createContentWithFiles e files (Some GENERATE_INSTRUCTION) w0 = Inr a"
  shows "\<exists>tb. filter is_text (content a) = TextBlock GENERATE_INSTRUCTION # tb \<and>
     (\<forall>b \<in> set tb. \<not> startsWith (block_text b) INSTRUCTION_PREFIX) \<and>
     (0 < totalExtractedPdfChars a \<longrightarrow> tb \<noteq> [])"
proof -
  from assembled_shape[OF assms] obtain new where
    n: "content a = TextBlock GENERATE_INSTRUCTION # new"
       "\<forall>b \<in> set new. \<not> startsWith (block_text b) INSTRUCTION_PREFIX"
       "0 < totalExtractedPdfChars a \<longrightarrow> (\<exists>b \<in> set new. is_text b)"
    by auto
  have "0 < totalExtractedPdfChars a \<longrightarrow> filter is_text new \<noteq> []"
    using n(3) by (auto simp: filter_empty_conv)
  then show ?thesis using n(1,2)
    by (intro exI[of _ "filter is_text new"]) simp
qed

lemma not_image_pdf: "\<not> startsWith ''application/pdf'' ''image/''"
  by (simp add: startsWith_def)

lemma process_file_extraction_fails:
  assumes "getMediaType (file_label f) = ''application/pdf''"
    and "extractPdfText e (path f) = Inl err"
  shows "process_file e cr f a = Inl (err, a_world a)"
  using assms by (simp add: process_file_def not_image_pdf)

lemma process_files_fails:
  assumes "f \<in> set files" and "\<And>a. \<exists>x. process_file e cr f a = Inl x"
  shows "\<exists>x. process_files e cr files a = Inl x"
  using assms(1)
proof (induction files arbitrary: a)
  case Nil
  then show ?case by simp
next
  case (Cons g rest)
  show ?case
  proof (cases "process_file e cr g a")
    case (Inl x)
    then show ?thesis by simp
  next
    case (Inr a1)
    with assms(2)[of a] have "g \<noteq> f" by auto
    with Cons.prems have "f \<in> set rest" by simp
    from Cons.IH[OF this, of a1] Inr show ?thesis by simp
  qed
qed

lemma process_files_world_on_error:
  "process_files e cr files a = Inl (err, w') \<Longrightarrow> calls w' = calls (a_world a)"
proof (induction files arbitrary: a)
  case Nil
  then show ?case by simp
next
  case (Cons g rest)
  show ?case
  proof (cases "process_file e cr g a")
    case (Inl x)
    then have "x = (err, w')" using Cons.prems by simp
    moreover have "snd x = a_world a" using Inl
      by (auto simp: process_file_def Let_def split: if_splits sum.splits)
    ultimately show ?thesis by simp
  next
    case (Inr a1)
    then have "process_files e cr rest a1 = Inl (err, w')" using Cons.prems by simp
    from Cons.IH[OF this] process_file_inv[OF Inr] show ?thesis by auto
  qed
qed

lemma process_files_single: "process_files e cr [f] a = process_file e cr f a"
  by (simp split: sum.splits)

lemma single_pdf_assembly:
  assumes "getMediaType (file_label f) = ''application/pdf''"
    and "extractPdfText e (path f) = Inr (t, np)"
  shows "\<exists>a. createContentWithFiles e [f] msg w = Inr a \<and>
     totalExtractedPdfChars a = length t \<and>
     a_world a = a_world
       (if shouldRenderVisual (length t) (pages_of np)
        then visual_fallback e (pdftoppm_available e) f (pages_of np)
               \<lparr>a_world = w,
                content = (if or_empty msg \<noteq> [] then [TextBlock (or_empty msg)] else []),
                pdfDiagnostics = [], totalExtractedPdfChars = length t\<rparr>
        else \<lparr>a_world = w,
              content = (if or_empty msg \<noteq> [] then [TextBlock (or_empty msg)] else []),
              pdfDiagnostics = [], totalExtractedPdfChars = length t\<rparr>)"
proof -
  let ?a0 = "\<lparr>a_world = w,
             content = (if or_empty msg \<noteq> [] then [TextBlock (or_empty msg)] else []),
             pdfDiagnostics = [], totalExtractedPdfChars = 0\<rparr>"
  let ?a1 = "\<lparr>a_world = w,
             content = (if or_empty msg \<noteq> [] then [TextBlock (or_empty msg)] else []),
             pdfDiagnostics = [], totalExtractedPdfChars = length t\<rparr>"
  have a1: "?a0\<lparr>totalExtractedPdfChars := totalExtractedPdfChars ?a0 + length t\<rparr> = ?a1"
    by simp
  have tot: "totalExtractedPdfChars
       (visual_fallback e (pdftoppm_available e) f (pages_of np) ?a1) = length t"
    using visual_fallback_inv[of e "pdftoppm_available e" f "pages_of np" ?a1] by auto
  show ?thesis
    unfolding createContentWithFiles_def process_files_single
    using assms tot
    by (simp add: process_file_def not_image_pdf Let_def a1 del: One_nat_def)
qed

lemma single_pdf_assembly_plain:
  assumes "getMediaType (file_label f) = ''application/pdf''"
    and "extractPdfText e (path f) = Inr (t, np)"
    and "\<not> shouldRenderVisual (length t) (pages_of np)"
  shows "createContentWithFiles e [f] msg w =
     Inr \<lparr>a_world = w,
          content = (if or_empty msg \<noteq> [] then [TextBlock (or_empty msg)] else []) @
                    chunk_blocks (file_label f) (pdf_chunks t),
          pdfDiagnostics =
            [\<lparr>d_filename = file_label f, d_numpages = np, d_textLength = length t,
              d_chunkCount = length (pdf_chunks t)\<rparr>],
          totalExtractedPdfChars = length t\<rparr>"
  unfolding createContentWithFiles_def process_files_single
  using assms by (simp add: process_file_def not_image_pdf Let_def)

lemma visual_fallback_world:
  "a_world (visual_fallback e True f pages a)
     = a_world (render_pages e (path f) (cappedPages pages)
                  (push (TextBlock (visual_start_marker (file_label f))) a))"
  by (simp add: visual_fallback_def push_def)

lemma process_file_pdf_content:
  assumes "getMediaType (file_label f) = ''application/pdf''"
    and "extractPdfText e (path f) = Inr (t, numpages)"
  shows "\<exists>a' fallback. process_file e cr f a = Inr a' \<and>
     content a' = content a @ fallback @ chunk_blocks (file_label f) (pdf_chunks t) \<and>
     (fallback \<noteq> []) = shouldRenderVisual (length t) (pages_of numpages)"
proof -
  let ?a1 = "a\<lparr>totalExtractedPdfChars := totalExtractedPdfChars a + length t\<rparr>"
  let ?a2 = "if shouldRenderVisual (length t) (pages_of numpages)
             then visual_fallback e cr f (pages_of numpages) ?a1 else ?a1"
  have "\<exists>a'. process_file e cr f a = Inr a' \<and>
      content a' = content ?a2 @ chunk_blocks (file_label f) (pdf_chunks t)"
    using assms by (simp add: process_file_def not_image_pdf Let_def)
  then obtain a' where a': "process_file e cr f a = Inr a'"
    "content a' = content ?a2 @ chunk_blocks (file_label f) (pdf_chunks t)"
    by blast
  have "\<exists>fallback. content ?a2 = content a @ fallback \<and>
      (fallback \<noteq> []) = shouldRenderVisual (length t) (pages_of numpages)"
  proof (cases "shouldRenderVisual (length t) (pages_of numpages)")
    case True
    from visual_fallback_inv[of e cr f "pages_of numpages" ?a1] True
    show ?thesis by auto
  next
    case False
    then show ?thesis by simp
  qed
  then obtain fallback where "content ?a2 = content a @ fallback"
    "(fallback \<noteq> []) = shouldRenderVisual (length t) (pages_of numpages)"
    by blast
  with a' show ?thesis by (intro exI[of _ a'] exI[of _ fallback]) simp
qed

section \<open>Lemmas: rendered pages in storage\<close>

lemma unlink_quiet_stored:
  "stored (unlink_quiet e p w) = stored w - {q. q = p \<and> unlink_error e p = None}"
  by (auto simp: unlink_quiet_def unlink_def split: option.splits)

lemma unlink_quiet_calls: "calls (unlink_quiet e p w) = calls w"
  by (simp add: unlink_quiet_def unlink_def split: option.splits)

lemma render_pages_keeps_absent:
  assumes "fileToBase64 e ip = Inr d" and "unlink_error e ip = None"
  shows "ip \<notin> stored (a_world a) \<Longrightarrow> ip \<notin> stored (a_world (render_pages e pdf ps a))"
proof (induction ps arbitrary: a)
  case Nil
  then show ?case by simp
next
  case (Cons q rest)
  show ?case
  proof (cases "render_result e pdf q")
    case (Inl err)
    then show ?thesis using Cons by simp
  next
    case (Inr jp)
    show ?thesis
    proof (cases "fileToBase64 e jp")
      case (Inl err)
      then have "jp \<noteq> ip" using assms by auto
      then show ?thesis using Inl Inr Cons.prems by (auto intro!: Cons.IH)
    next
      case r: (Inr d')
      show ?thesis using Inr r Cons.prems assms(2)
        by (auto intro!: Cons.IH simp: unlink_quiet_stored)
    qed
  qed
qed

lemma render_pages_deletes_encoded:
  assumes "render_result e pdf pageNum = Inr ip" and "fileToBase64 e ip = Inr d"
    and "unlink_error e ip = None"
  shows "pageNum \<in> set ps \<Longrightarrow> ip \<notin> stored (a_world (render_pages e pdf ps a))"
proof (induction ps arbitrary: a)
  case Nil
  then show ?case by simp
next
  case (Cons q rest)
  show ?case
  proof (cases "q = pageNum")
    case True
    then show ?thesis using assms
      by (auto intro!: render_pages_keeps_absent[OF assms(2,3)] simp: unlink_quiet_stored)
  next
    case False
    then have m: "pageNum \<in> set rest" using Cons.prems by simp
    show ?thesis
      using Cons.IH[OF m] by (auto split: sum.splits)
  qed
qed

section \<open>Lemmas: the notes pass\<close>

lemma api_call_calls: "api_call e r w = (res, w') \<Longrightarrow> calls w' = calls w @ [r] \<and> stored w' = stored w"
  by (auto simp: api_call_def split: sum.splits)

lemma api_call_eq:
  "api_call e r w =
     (case messages_create e (calls w) r of Inl err \<Rightarrow> Inl err | Inr t \<Rightarrow> Inr (or_empty t),
      w\<lparr>calls := calls w @ [r]\<rparr>)"
  by (simp add: api_call_def split: sum.splits)

lemma notes_loop_eq_spec:
  "\<forall>x \<in> set items. \<not> startsWith (block_text (snd x)) INSTRUCTION_PREFIX \<Longrightarrow>
   notes_loop e n items acc w = spec_notes_pass e n items acc w"
proof (induction items arbitrary: acc w)
  case Nil
  then show ?case by simp
next
  case (Cons x rest)
  obtain i b where x: "x = (i, b)" by (cases x)
  show ?case
  proof (cases "api_call e (notes_request i n (block_text b)) w")
    case (Pair res w')
    then show ?thesis using Cons x by (cases res) auto
  qed
qed

lemma spec_notes_pass_calls:
  "spec_notes_pass e n items acc w = (Inr notes', w') \<Longrightarrow>
   calls w' = calls w @ map (\<lambda>(i, b). notes_request i n (block_text b)) items \<and>
   length notes' = length acc + length items \<and> stored w' = stored w"
proof (induction items arbitrary: acc w)
  case Nil
  then show ?case by simp
next
  case (Cons x rest)
  obtain i b where x: "x = (i, b)" by (cases x)
  obtain res w1 where r: "api_call e (notes_request i n (block_text b)) w = (res, w1)"
    by (cases "api_call e (notes_request i n (block_text b)) w")
  from Cons.prems x r obtain t where t: "res = Inr t"
    "spec_notes_pass e n rest (acc @ [t]) w1 = (Inr notes', w')"
    by (cases res) auto
  from Cons.IH[OF t(2)] api_call_calls[OF r] x show ?case by simp
qed

lemma spec_notes_pass_extends:
  "spec_notes_pass e n items acc w = (res, w') \<Longrightarrow>
   \<exists>ext. calls w' = calls w @ ext \<and> stored w' = stored w"
proof (induction items arbitrary: acc w)
  case Nil
  then show ?case by simp
next
  case (Cons x rest)
  obtain i b where x: "x = (i, b)" by (cases x)
  obtain r1 w1 where r: "api_call e (notes_request i n (block_text b)) w = (r1, w1)"
    by (cases "api_call e (notes_request i n (block_text b)) w")
  show ?case
  proof (cases r1)
    case (Inl err)
    then show ?thesis using Cons.prems x r api_call_calls[OF r] by auto
  next
    case (Inr t)
    then have "spec_notes_pass e n rest (acc @ [t]) w1 = (res, w')"
      using Cons.prems x r by simp
    from Cons.IH[OF this] api_call_calls[OF r] show ?thesis by auto
  qed
qed

lemma spec_notes_pass_run:
  "\<exists>m ts. m \<le> length items \<and> length ts = m \<and>
     (\<forall>k<m. messages_create e
               (calls w @ take k (map (\<lambda>(i, b). notes_request i n (block_text b)) items))
               (map (\<lambda>(i, b). notes_request i n (block_text b)) items ! k) = Inr (ts ! k)) \<and>
     (if m = length items
      then spec_notes_pass e n items acc w
             = (Inr (acc @ map or_empty ts),
                w\<lparr>calls := calls w @ map (\<lambda>(i, b). notes_request i n (block_text b)) items\<rparr>)
      else (\<exists>err.
              messages_create e
                (calls w @ take m (map (\<lambda>(i, b). notes_request i n (block_text b)) items))
                (map (\<lambda>(i, b). notes_request i n (block_text b)) items ! m) = Inl err \<and>
              spec_notes_pass e n items acc w
                = (Inl err,
                   w\<lparr>calls := calls w @
                        take (Suc m) (map (\<lambda>(i, b). notes_request i n (block_text b)) items)\<rparr>)))"
proof (induction items arbitrary: acc w)
  case Nil
  show ?case by (intro exI[of _ 0] exI[of _ "[]"]) simp
next
  case (Cons x rest)
  obtain i b where x: "x = (i, b)" by (cases x)
  let ?R = "map (\<lambda>(i, b). notes_request i n (block_text b)) rest"
  let ?r0 = "notes_request i n (block_text b)"
  show ?case
  proof (cases "messages_create e (calls w) ?r0")
    case (Inl err)
    then show ?thesis
      unfolding x
      by (intro exI[of _ 0] exI[of _ "[]"]) (simp add: api_call_def)
  next
    case (Inr t)
    let ?w1 = "w\<lparr>calls := calls w @ [?r0]\<rparr>"
    have step: "spec_notes_pass e n ((i, b) # rest) acc w
        = spec_notes_pass e n rest (acc @ [or_empty t]) ?w1"
      using Inr by (simp add: api_call_def)
    from Cons.IH[of ?w1 "acc @ [or_empty t]"] obtain m ts where
      m: "m \<le> length rest" "length ts = m"
         "\<forall>k<m. messages_create e (calls ?w1 @ take k ?R) (?R ! k) = Inr (ts ! k)"
         "if m = length rest
          then spec_notes_pass e n rest (acc @ [or_empty t]) ?w1
                 = (Inr ((acc @ [or_empty t]) @ map or_empty ts), ?w1\<lparr>calls := calls ?w1 @ ?R\<rparr>)
          else (\<exists>err. messages_create e (calls ?w1 @ take m ?R) (?R ! m) = Inl err \<and>
                  spec_notes_pass e n rest (acc @ [or_empty t]) ?w1
                    = (Inl err, ?w1\<lparr>calls := calls ?w1 @ take (Suc m) ?R\<rparr>))"
      by blast
    have a: "\<forall>k<Suc m. messages_create e (calls w @ take k (?r0 # ?R)) ((?r0 # ?R) ! k)
                 = Inr ((t # ts) ! k)"
    proof (intro allI impI)
      fix k assume k: "k < Suc m"
      show "messages_create e (calls w @ take k (?r0 # ?R)) ((?r0 # ?R) ! k) = Inr ((t # ts) ! k)"
      proof (cases k)
        case 0
        then show ?thesis using Inr by simp
      next
        case (Suc j)
        then have "j < m" using k by simp
        with m(3) have "messages_create e (calls ?w1 @ take j ?R) (?R ! j) = Inr (ts ! j)" by blast
        then show ?thesis using Suc by simp
      qed
    qed
    show ?thesis
      unfolding x step
      using m(1,2,4) a
      by (intro exI[of _ "Suc m"] exI[of _ "t # ts"]) (auto split: if_splits)
  qed
qed

lemma zip_upt_Cons: "zip [0..<Suc m] (x # xs) = (0, x) # zip [1..<Suc m] xs"
  by (simp add: upt_conv_Cons del: upt_Suc)

lemma zip_upt_nth: "zip [0..<length xs] xs = map (\<lambda>i. (i, xs ! i)) [0..<length xs]"
  by (rule nth_equalityI) simp_all

lemma tl_zip_upt_nth: "tl (zip [0..<length xs] xs) = map (\<lambda>i. (i, xs ! i)) [1..<length xs]"
proof -
  have "tl (zip [0..<length xs] xs) = map (\<lambda>i. (i, xs ! i)) (tl [0..<length xs])"
    by (simp only: zip_upt_nth map_tl)
  then show ?thesis by (simp add: tl_upt)
qed

lemma notes_requests_nth:
  "map (\<lambda>(i, b). notes_request i n (block_text b)) (tl (zip [0..<length tb] tb))
     = map (\<lambda>i. notes_request i n (block_text (tb ! i))) [1..<length tb]"
  by (simp only: tl_zip_upt_nth map_map comp_def prod.case)

lemma notes_pass_on_assembled:
  assumes "createContentWithFiles e files (Some GENERATE_INSTRUCTION) w0 = Inr a"
  shows "notes_loop e (length (filter is_text (content a)))
           (zip [0..<length (filter is_text (content a))] (filter is_text (content a))) [] w
       = spec_notes_pass e (length (filter is_text (content a)))
           (tl (zip [0..<length (filter is_text (content a))] (filter is_text (content a)))) [] w"
proof -
  from assembled_text_blocks[OF assms] obtain tb where
    tb: "filter is_text (content a) = TextBlock GENERATE_INSTRUCTION # tb"
        "\<forall>b \<in> set tb. \<not> startsWith (block_text b) INSTRUCTION_PREFIX"
    by blast
  have z: "zip [0..<length (TextBlock GENERATE_INSTRUCTION # tb)] (TextBlock GENERATE_INSTRUCTION # tb)
      = (0, TextBlock GENERATE_INSTRUCTION) # zip [1..<Suc (length tb)] tb"
    using zip_upt_Cons[of "length tb" "TextBlock GENERATE_INSTRUCTION" tb] by simp
  have m: "\<forall>x \<in> set (zip [1..<Suc (length tb)] tb). \<not> startsWith (block_text (snd x)) INSTRUCTION_PREFIX"
    using tb(2) by (auto dest: set_zip_rightD)
  show ?thesis
    unfolding tb(1) z
    using notes_loop_eq_spec[OF m] generate_instruction_is_instruction by simp
qed

lemma multipass_run_on_assembled:
  assumes "createContentWithFiles e files (Some GENERATE_INSTRUCTION) w0 = Inr a"
  shows "\<exists>m ts.
     m \<le> length (filter is_text (content a)) - 1 \<and> length ts = m \<and>
     (\<forall>k<m. messages_create e
               (calls w @ take k (map (\<lambda>i. notes_request i (length (filter is_text (content a)))
                      (block_text (filter is_text (content a) ! i)))
                    [1..<length (filter is_text (content a))]))
               (map (\<lambda>i. notes_request i (length (filter is_text (content a)))
                      (block_text (filter is_text (content a) ! i)))
                    [1..<length (filter is_text (content a))] ! k) = Inr (ts ! k)) \<and>
     (if m = length (filter is_text (content a)) - 1
      then runMultiPassBreakdown e (content a) w
             = api_call e (final_request (filter is_image (content a)) (map or_empty ts))
                 (w\<lparr>calls := calls w @
                      map (\<lambda>i. notes_request i (length (filter is_text (content a)))
                             (block_text (filter is_text (content a) ! i)))
                        [1..<length (filter is_text (content a))]\<rparr>)
      else (\<exists>err.
              messages_create e
                (calls w @ take m (map (\<lambda>i. notes_request i (length (filter is_text (content a)))
                      (block_text (filter is_text (content a) ! i)))
                    [1..<length (filter is_text (content a))]))
                (map (\<lambda>i. notes_request i (length (filter is_text (content a)))
                      (block_text (filter is_text (content a) ! i)))
                    [1..<length (filter is_text (content a))] ! m) = Inl err \<and>
              runMultiPassBreakdown e (content a) w
                = (Inl err,
                   w\<lparr>calls := calls w @
                        take (Suc m) (map (\<lambda>i. notes_request i (length (filter is_text (content a)))
                             (block_text (filter is_text (content a) ! i)))
                          [1..<length (filter is_text (content a))])\<rparr>)))"
proof -
  let ?tb = "filter is_text (content a)"
  let ?n = "length ?tb"
  let ?items = "tl (zip [0..<?n] ?tb)"
  let ?reqs = "map (\<lambda>i. notes_request i ?n (block_text (?tb ! i))) [1..<?n]"
  have R: "map (\<lambda>(i, b). notes_request i ?n (block_text b)) ?items = ?reqs"
    by (rule notes_requests_nth)
  have len: "length ?items = ?n - 1" by simp
  have nl: "notes_loop e ?n (zip [0..<?n] ?tb) [] w = spec_notes_pass e ?n ?items [] w"
    by (rule notes_pass_on_assembled[OF assms])
  from spec_notes_pass_run[of ?items e w ?n "[]"] obtain m ts where
    m: "m \<le> ?n - 1" "length ts = m"
       "\<forall>k<m. messages_create e (calls w @ take k ?reqs) (?reqs ! k) = Inr (ts ! k)"
       "if m = ?n - 1
        then spec_notes_pass e ?n ?items [] w = (Inr ([] @ map or_empty ts), w\<lparr>calls := calls w @ ?reqs\<rparr>)
        else (\<exists>err. messages_create e (calls w @ take m ?reqs) (?reqs ! m) = Inl err \<and>
                spec_notes_pass e ?n ?items [] w
                  = (Inl err, w\<lparr>calls := calls w @ take (Suc m) ?reqs\<rparr>))"
    unfolding R len by blast
  have "if m = ?n - 1
      then runMultiPassBreakdown e (content a) w
             = api_call e (final_request (filter is_image (content a)) (map or_empty ts))
                 (w\<lparr>calls := calls w @ ?reqs\<rparr>)
      else (\<exists>err. messages_create e (calls w @ take m ?reqs) (?reqs ! m) = Inl err \<and>
              runMultiPassBreakdown e (content a) w
                = (Inl err, w\<lparr>calls := calls w @ take (Suc m) ?reqs\<rparr>))"
  proof (cases "m = ?n - 1")
    case True
    with m(4) have "spec_notes_pass e ?n ?items [] w = (Inr (map or_empty ts), w\<lparr>calls := calls w @ ?reqs\<rparr>)"
      by simp
    then show ?thesis using True nl by (simp add: runMultiPassBreakdown_def Let_def)
  next
    case False
    with m(4) obtain err where
      "messages_create e (calls w @ take m ?reqs) (?reqs ! m) = Inl err"
      "spec_notes_pass e ?n ?items [] w = (Inl err, w\<lparr>calls := calls w @ take (Suc m) ?reqs\<rparr>)"
      by auto
    then show ?thesis using False nl by (auto simp: runMultiPassBreakdown_def Let_def)
  qed
  with m(1,2,3) show ?thesis by blast
qed

lemma notes_loop_stored:
  "notes_loop e n items acc w = (res, w') \<Longrightarrow> stored w' = stored w"
proof (induction items arbitrary: acc w)
  case Nil
  then show ?case by simp
next
  case (Cons x rest)
  obtain i b where x: "x = (i, b)" by (cases x)
  show ?case
  proof (cases "startsWith (block_text b) INSTRUCTION_PREFIX")
    case True
    then show ?thesis using Cons x by simp
  next
    case False
    obtain r1 w1 where r: "api_call e (notes_request i n (block_text b)) w = (r1, w1)"
      by (cases "api_call e (notes_request i n (block_text b)) w")
    show ?thesis
    proof (cases r1)
      case (Inl er)
      then show ?thesis using Cons.prems x r False api_call_calls[OF r] by auto
    next
      case (Inr t)
      then have "notes_loop e n rest (acc @ [t]) w1 = (res, w')"
        using Cons.prems x r False by simp
      from Cons.IH[OF this] api_call_calls[OF r] show ?thesis by simp
    qed
  qed
qed

lemma runMultiPass_stored:
  assumes "runMultiPassBreakdown e c w = (res, w')"
  shows "stored w' = stored w"
proof -
  let ?tb = "filter is_text c"
  obtain nres wn where nl: "notes_loop e (length ?tb) (zip [0..<length ?tb] ?tb) [] w = (nres, wn)"
    by (cases "notes_loop e (length ?tb) (zip [0..<length ?tb] ?tb) [] w")
  note s1 = notes_loop_stored[OF nl]
  show ?thesis
  proof (cases nres)
    case (Inl er)
    then show ?thesis using assms nl s1 by (simp add: runMultiPassBreakdown_def Let_def)
  next
    case (Inr ns)
    then have "api_call e (final_request (filter is_image c) ns) wn = (res, w')"
      using assms nl by (simp add: runMultiPassBreakdown_def Let_def)
    from api_call_calls[OF this] s1 show ?thesis by simp
  qed
qed

lemma api_call_succeeds:
  assumes "\<forall>log r. \<exists>t. messages_create e log r = Inr t"
  shows "\<exists>t w'. api_call e r w = (Inr t, w')"
proof -
  from assms obtain t where "messages_create e (calls w) r = Inr t" by blast
  then show ?thesis by (simp add: api_call_def)
qed

lemma notes_loop_succeeds:
  assumes "\<forall>log r. \<exists>t. messages_create e log r = Inr t"
  shows "\<exists>ns w'. notes_loop e n items acc w = (Inr ns, w')"
proof (induction items arbitrary: acc w)
  case Nil
  then show ?case by simp
next
  case (Cons x rest)
  obtain i b where x: "x = (i, b)" by (cases x)
  from api_call_succeeds[OF assms, of "notes_request i n (block_text b)" w]
  obtain t w1 where "api_call e (notes_request i n (block_text b)) w = (Inr t, w1)" by blast
  then show ?case using Cons.IH[of acc w] Cons.IH[of "acc @ [t]" w1] x by simp
qed

lemma runMultiPass_succeeds:
  assumes "\<forall>log r. \<exists>t. messages_create e log r = Inr t"
  shows "\<exists>res w'. runMultiPassBreakdown e c w = (Inr res, w')"
proof -
  let ?tb = "filter is_text c"
  from notes_loop_succeeds[OF assms, of "length ?tb" "zip [0..<length ?tb] ?tb" "[]" w]
  obtain ns wn where nl: "notes_loop e (length ?tb) (zip [0..<length ?tb] ?tb) [] w = (Inr ns, wn)"
    by blast
  from api_call_succeeds[OF assms, of "final_request (filter is_image c) ns" wn]
  show ?thesis using nl by (simp add: runMultiPassBreakdown_def Let_def)
qed

lemma runMultiPass_on_assembled_first_call:
  assumes asm: "createContentWithFiles e files (Some GENERATE_INSTRUCTION) w0 = Inr a"
    and pos: "0 < totalExtractedPdfChars a"
    and run: "runMultiPassBreakdown e (content a) w = (res, w')"
  shows "\<exists>ext. calls w' = calls w @
      notes_request 1 (length (filter is_text (content a)))
        (block_text (filter is_text (content a) ! 1)) # ext"
proof -
  let ?tbs = "filter is_text (content a)"
  let ?n = "length ?tbs"
  from assembled_text_blocks[OF asm] pos obtain tb where
    tb: "?tbs = TextBlock GENERATE_INSTRUCTION # tb" "tb \<noteq> []"
    by auto
  then obtain b1 rest where b1: "tb = b1 # rest" by (cases tb) auto
  have n: "?n = Suc (Suc (length rest))" using tb(1) b1 by simp
  have z: "tl (zip [0..<?n] ?tbs) = (1, b1) # zip [Suc (Suc 0)..<Suc (Suc (length rest))] rest"
    unfolding n unfolding tb(1) b1
    by (simp add: upt_conv_Cons del: upt_Suc)
  let ?r = "notes_request 1 ?n (block_text b1)"
  obtain r1 w1 where a1: "api_call e ?r w = (r1, w1)" by (cases "api_call e ?r w")
  have c1: "calls w1 = calls w @ [?r]" using api_call_calls[OF a1] by simp
  have nth: "?tbs ! 1 = b1" using tb(1) b1 by simp
  obtain nres wn where nl: "notes_loop e ?n (zip [0..<?n] ?tbs) [] w = (nres, wn)"
    by (cases "notes_loop e ?n (zip [0..<?n] ?tbs) [] w")
  then have sp: "spec_notes_pass e ?n ((1, b1) # zip [Suc (Suc 0)..<Suc (Suc (length rest))] rest) [] w = (nres, wn)"
    using notes_pass_on_assembled[OF asm, of w] z by simp
  have "\<exists>ext. calls wn = calls w @ ?r # ext"
  proof (cases r1)
    case (Inl er)
    then show ?thesis using sp a1 c1 by auto
  next
    case (Inr t)
    then have "spec_notes_pass e ?n (zip [Suc (Suc 0)..<Suc (Suc (length rest))] rest) ([] @ [t]) w1 = (nres, wn)"
      using sp a1 by simp
    from spec_notes_pass_extends[OF this] c1 show ?thesis by auto
  qed
  then obtain ext where ext: "calls wn = calls w @ ?r # ext" by blast
  show ?thesis
  proof (cases nres)
    case (Inl er)
    then have "w' = wn" using run nl by (simp add: runMultiPassBreakdown_def Let_def)
    then show ?thesis using ext nth by auto
  next
    case (Inr ns)
    then have "api_call e (final_request (filter is_image (content a)) ns) wn = (res, w')"
      using run nl by (simp add: runMultiPassBreakdown_def Let_def)
    from api_call_calls[OF this] ext nth show ?thesis by auto
  qed
qed

section \<open>Lemmas: the generate handler\<close>

lemma cleanup_stored:
  "stored (cleanup e ps w) = stored w - {p \<in> set ps. unlink_error e p = None}"
  by (induction ps arbitrary: w) (auto simp: unlink_quiet_stored)

lemma cleanup_calls: "calls (cleanup e ps w) = calls w"
  by (induction ps arbitrary: w) (simp_all add: unlink_quiet_calls)

lemma generate_breakdown_world:
  "snd (generate_breakdown e files w) = cleanup e (map path files) (snd (generate_try e files w))"
  "fst (generate_breakdown e files w) = fst (generate_try e files w)"
  by (simp_all add: generate_breakdown_def split: prod.splits)

lemma generate_breakdown_stored:
  "stored (snd (generate_breakdown e files w))
     = stored (snd (generate_try e files w)) - {p \<in> set (map path files). unlink_error e p = None}"
  by (simp only: generate_breakdown_world cleanup_stored)

lemma synthesize_stored: "stored (snd (synthesize e a)) = stored (a_world a)"
proof (cases "totalExtractedPdfChars a > MULTIPASS_THRESHOLD_CHARS")
  case True
  obtain r w1 where r: "runMultiPassBreakdown e (content a) (a_world a) = (r, w1)"
    by (cases "runMultiPassBreakdown e (content a) (a_world a)")
  from runMultiPass_stored[OF r] True r show ?thesis by (simp add: synthesize_def)
next
  case False
  obtain r w1 where r: "api_call e (direct_request (content a)) (a_world a) = (r, w1)"
    by (cases "api_call e (direct_request (content a)) (a_world a)")
  from api_call_calls[OF r] False r show ?thesis by (simp add: synthesize_def)
qed

lemma synthesize_single:
  "totalExtractedPdfChars a \<le> MULTIPASS_THRESHOLD_CHARS \<Longrightarrow>
   synthesize e a = api_call e (direct_request (content a)) (a_world a)"
  by (simp add: synthesize_def)

lemma synthesize_multi:
  "totalExtractedPdfChars a > MULTIPASS_THRESHOLD_CHARS \<Longrightarrow>
   synthesize e a = runMultiPassBreakdown e (content a) (a_world a)"
  by (simp add: synthesize_def)

lemma generate_stored_after_assembly:
  assumes "length files \<noteq> 0" and "api_key_set e"
    and "createContentWithFiles e files (Some GENERATE_INSTRUCTION) w = Inr a"
  shows "stored (snd (generate_breakdown e files w))
           = stored (a_world a) - {p \<in> set (map path files). unlink_error e p = None}"
proof -
  have "snd (generate_try e files w) = snd (synthesize e a)"
    using assms by (auto simp: generate_try_def split: prod.splits sum.splits)
  then show ?thesis
    by (simp only: generate_breakdown_stored synthesize_stored)
qed

lemma generate_try_after_assembly:
  assumes "length files \<noteq> 0" and "api_key_set e"
    and "createContentWithFiles e files (Some GENERATE_INSTRUCTION) w = Inr a"
  shows "calls (snd (generate_breakdown e files w)) = calls (snd (synthesize e a))"
  using assms
  by (auto simp: generate_breakdown_world generate_try_def cleanup_calls split: prod.splits sum.splits)

lemma generate_response_after_assembly:
  assumes "length files \<noteq> 0" and "api_key_set e"
    and "createContentWithFiles e files (Some GENERATE_INSTRUCTION) w = Inr a"
  shows "fst (generate_breakdown e files w) =
     (case fst (synthesize e a) of
        Inl err \<Rightarrow> ErrorResponse 500 ''Failed to generate breakdown''
      | Inr breakdown \<Rightarrow>
          BreakdownResponse breakdown [(User, content a), (Assistant, [TextBlock breakdown])])"
  using assms
  by (auto simp: generate_breakdown_world generate_try_def split: prod.splits sum.splits)

lemma generate_path:
  assumes "length files \<noteq> 0" and "api_key_set e"
    and "createContentWithFiles e files (Some GENERATE_INSTRUCTION) w = Inr a"
  shows "totalExtractedPdfChars a \<le> MULTIPASS_THRESHOLD_CHARS \<Longrightarrow>
           calls (snd (generate_breakdown e files w)) = calls w @ [direct_request (content a)]"
    and "totalExtractedPdfChars a > MULTIPASS_THRESHOLD_CHARS \<Longrightarrow>
           \<exists>ext. calls (snd (generate_breakdown e files w)) = calls w @
             notes_request 1 (length (filter is_text (content a)))
               (block_text (filter is_text (content a) ! 1)) # ext"
proof -
  have cw: "calls (a_world a) = calls w" using assembled_shape[OF assms(3)] by auto
  {
    assume le: "totalExtractedPdfChars a \<le> MULTIPASS_THRESHOLD_CHARS"
    obtain r w1 where r: "api_call e (direct_request (content a)) (a_world a) = (r, w1)"
      by (cases "api_call e (direct_request (content a)) (a_world a)")
    have "synthesize e a = (r, w1)" using le r by (simp add: synthesize_def)
    then show "calls (snd (generate_breakdown e files w)) = calls w @ [direct_request (content a)]"
      using generate_try_after_assembly[OF assms] api_call_calls[OF r] cw by simp
  }
  {
    assume gt: "totalExtractedPdfChars a > MULTIPASS_THRESHOLD_CHARS"
    then have pos: "0 < totalExtractedPdfChars a" by simp
    obtain r w1 where r: "runMultiPassBreakdown e (content a) (a_world a) = (r, w1)"
      by (cases "runMultiPassBreakdown e (content a) (a_world a)")
    have "synthesize e a = (r, w1)" using gt r by (simp add: synthesize_def)
    then show "\<exists>ext. calls (snd (generate_breakdown e files w)) = calls w @
             notes_request 1 (length (filter is_text (content a)))
               (block_text (filter is_text (content a) ! 1)) # ext"
      using generate_try_after_assembly[OF assms]
        runMultiPass_on_assembled_first_call[OF assms(3) pos r] cw by simp
  }
qed

lemma extraction_failure_propagates:
  assumes "api_key_set e" and "f \<in> set files"
    and "getMediaType (file_label f) = ''application/pdf''"
    and "extractPdfText e (path f) = Inl err"
  shows "(\<exists>x. createContentWithFiles e files (Some GENERATE_INSTRUCTION) w = Inl x) \<and>
         fst (generate_breakdown e files w) = ErrorResponse 500 ''Failed to generate breakdown'' \<and>
         calls (snd (generate_breakdown e files w)) = calls w"
proof -
  have ne: "length files \<noteq> 0" using assms(2) by auto
  have "\<And>a. \<exists>x. process_file e (pdftoppm_available e) f a = Inl x"
    using process_file_extraction_fails[OF assms(3,4)] by blast
  from process_files_fails[OF assms(2) this]
  obtain x where x: "createContentWithFiles e files (Some GENERATE_INSTRUCTION) w = Inl x"
    unfolding createContentWithFiles_def by blast
  obtain er w1 where xe: "x = (er, w1)" by (cases x)
  have p: "process_files e (pdftoppm_available e) files
       \<lparr>a_world = w,
        content = (if or_empty (Some GENERATE_INSTRUCTION) \<noteq> []
                   then [TextBlock (or_empty (Some GENERATE_INSTRUCTION))] else []),
        pdfDiagnostics = [], totalExtractedPdfChars = 0\<rparr> = Inl (er, w1)"
    using x unfolding createContentWithFiles_def xe .
  have "calls w1 = calls w"
    using process_files_world_on_error[OF p] by simp
  then show ?thesis
    using ne assms(1) x xe
    by (simp add: generate_breakdown_world generate_try_def cleanup_calls)
qed

section \<open>Lemmas: the revise handler\<close>

lemma revise_on_array:
  assumes "conversationHistory body = Some (JArr H)"
  shows "revise_breakdown e body =
     (if revisionRequest body = [] \<or> currentBreakdown body = []
      then ErrorResponse 400 ''Missing required data''
      else if \<not> r_api_key_set e then ErrorResponse 500 MISSING_KEY_MESSAGE
      else (case r_messages_create e
                  \<lparr>max_tokens = MAX_TOKENS, system = SYSTEM_PROMPT,
                   messages = H @ [text_turn ''user''
                      (revision_text (revisionRequest body) (currentBreakdown body))]\<rparr> of
              Inl err \<Rightarrow> ErrorResponse 500 ''Failed to revise breakdown''
            | Inr t \<Rightarrow> BreakdownResponse (or_empty t)
                (H @ [text_turn ''user''
                        (revision_text (revisionRequest body) (currentBreakdown body)),
                      text_turn ''assistant'' (or_empty t)])))"
  using assms by (simp add: revise_breakdown_def history_or_empty_def Let_def split: sum.splits)

section \<open>Lemmas: the example requests\<close>

lemma ex_pdf_media_type: "getMediaType (file_label ex_pdf) = ''application/pdf''"
  by (simp add: getMediaType_def file_label_def ex_pdf_def extname_def last_segment_def
      media_types_def to_lower_char_def Let_def)

lemma ex_env_key: "api_key_set (ex_env b c)"
  by (simp add: ex_env_def)

lemma ex_env_answers: "\<forall>log r. \<exists>t. messages_create (ex_env b c) log r = Inr t"
  by (simp add: ex_env_def)

lemma ex_extract_fail:
  "extractPdfText (ex_env failing_backend c) (path ex_pdf)
     = Inl (ExtractionError ''Unsupported pdf-parse module shape'')"
  by (simp add: extractPdfText_def ex_env_def ex_pdf_def failing_backend_def)

lemma ex_extract_scanned:
  "extractPdfText (ex_env scanned_backend c) (path ex_pdf) = Inr ([], Some 1)"
  by (simp add: extractPdfText_def ex_env_def ex_pdf_def scanned_backend_def or_empty_def js_trim_def)

lemma ex_render_leaks:
  "a_world (render_pages (ex_env scanned_backend True) (path ex_pdf) [1] a)
     = (a_world a)\<lparr>stored := insert ''uploads/brief-page-1.jpg'' (stored (a_world a))\<rparr>"
  by (simp add: ex_env_def fileToBase64_def)

lemma ex_scanned_assembly:
  "\<exists>a. createContentWithFiles (ex_env scanned_backend True) [ex_pdf] (Some GENERATE_INSTRUCTION) ex_world = Inr a \<and>
       stored (a_world a) = {''uploads/brief-page-1.jpg'', ''uploads/1700000000000-brief.pdf''}"
proof -
  have av: "pdftoppm_available (ex_env scanned_backend True) = True" by (simp add: ex_env_def)
  from single_pdf_assembly[OF ex_pdf_media_type ex_extract_scanned, of True "Some GENERATE_INSTRUCTION" ex_world]
  obtain a where a: "createContentWithFiles (ex_env scanned_backend True) [ex_pdf] (Some GENERATE_INSTRUCTION) ex_world = Inr a"
    "a_world a = a_world (visual_fallback (ex_env scanned_backend True) True ex_pdf 1
        \<lparr>a_world = ex_world,
         content = (if or_empty (Some GENERATE_INSTRUCTION) \<noteq> [] then [TextBlock (or_empty (Some GENERATE_INSTRUCTION))] else []),
         pdfDiagnostics = [], totalExtractedPdfChars = 0\<rparr>)"
    unfolding av using shouldRenderVisual_0_1 by (auto simp: pages_of_def simp del: One_nat_def)
  have "stored (a_world a) = {''uploads/brief-page-1.jpg'', ''uploads/1700000000000-brief.pdf''}"
    unfolding a(2) visual_fallback_world cappedPages_1 ex_render_leaks
    by (simp add: push_def ex_world_def)
  with a(1) show ?thesis by blast
qed

lemma js_trim_replicate_a: "js_trim (replicate n (CHR ''a'')) = replicate n (CHR ''a'')"
proof -
  have "\<not> is_js_space (CHR ''a'')" by (simp add: is_js_space_def)
  then have "dropWhile is_js_space (replicate n (CHR ''a'')) = replicate n (CHR ''a'')"
    by (cases n) simp_all
  then show ?thesis by (simp add: js_trim_def)
qed

lemma length_replicate_a: "length (replicate n (CHR ''a'')) = n"
  by simp

lemma ex_extract_text:
  "extractPdfText (ex_env (text_backend n pageCount) c) (path ex_pdf)
     = Inr (replicate n (CHR ''a''), Some pageCount)"
  by (simp add: extractPdfText_def ex_env_def ex_pdf_def text_backend_def or_empty_def
      js_trim_replicate_a)

lemma ex_text_assembly:
  "\<exists>a. createContentWithFiles (ex_env (text_backend n pageCount) c) [ex_pdf]
          (Some GENERATE_INSTRUCTION) ex_world = Inr a \<and> totalExtractedPdfChars a = n"
  using single_pdf_assembly[OF ex_pdf_media_type ex_extract_text, of n pageCount c
      "Some GENERATE_INSTRUCTION" ex_world]
  by auto

lemma ex_revise_result:
  "revise_breakdown ex_revise_env (ex_body (Some (JArr ex_history)))
     = BreakdownResponse ''SHOOT DAYS: 3''
         (ex_history @ [text_turn ''user'' (revision_text ''three days'' ''SHOOT DAYS: 2''),
                        text_turn ''assistant'' ''SHOOT DAYS: 3''])"
  by (simp add: revise_on_array[of _ ex_history] ex_body_def ex_revise_env_def or_empty_def)

lemma replace_crlf_no_cr: "CHR 0x0D \<notin> set s \<Longrightarrow> replace_crlf s = s"
  by (induction s rule: replace_crlf.induct) auto

lemma replace_crlf_replicate_a: "replace_crlf (replicate n (CHR ''a'')) = replicate n (CHR ''a'')"
  by (rule replace_crlf_no_cr) auto

lemma ex_long_chunks:
  "pdf_chunks (replicate 40001 (CHR ''a''))
     = [replicate 12000 (CHR ''a''), replicate 12000 (CHR ''a''), replicate 12000 (CHR ''a''),
        replicate 5801 (CHR ''a'')]"
proof -
  have "chunk_loop (replicate 40001 (CHR ''a'')) 12000 600 0 []
      = Some [replicate 12000 (CHR ''a''), replicate 12000 (CHR ''a''), replicate 12000 (CHR ''a''),
        replicate 5801 (CHR ''a'')]"
    by (simp add: chunk_loop.simps js_slice_def)
  then show ?thesis
    by (simp add: pdf_chunks_def chunkText_def replace_crlf_replicate_a js_trim_replicate_a
        PDF_TEXT_CHUNK_CHARS_def PDF_TEXT_CHUNK_OVERLAP_def)
qed

lemma ex_file_label: "file_label ex_pdf = ''brief.pdf''"
  by (simp add: file_label_def ex_pdf_def)

lemma upt_0_4: "[0..<4] = [0, 1, 2, 3]"
  by (simp add: upt_conv_Cons)

lemma upt_1_5: "[1..<5] = [1, 2, 3, 4]"
  by (simp add: upt_conv_Cons)

lemma ex_long_chunk_blocks:
  "chunk_blocks ''brief.pdf''
     [replicate 12000 (CHR ''a''), replicate 12000 (CHR ''a''), replicate 12000 (CHR ''a''),
      replicate 5801 (CHR ''a'')]
   = tl ex_long_content"
proof -
  have l: "length [replicate 12000 (CHR ''a''), replicate 12000 (CHR ''a''),
      replicate 12000 (CHR ''a''), replicate 5801 (CHR ''a'')] = 4"
    by simp
  show ?thesis
    unfolding chunk_blocks_def l upt_0_4
    by (simp add: ex_long_content_def)
qed

lemma ex_extract_notes:
  "extractPdfText (ex_env_notes (text_backend n pageCount) c) (path ex_pdf)
     = Inr (replicate n (CHR ''a''), Some pageCount)"
  by (simp add: extractPdfText_def ex_env_notes_def ex_env_def ex_pdf_def text_backend_def
      or_empty_def js_trim_replicate_a)

lemma ex_extract_refusing:
  "extractPdfText (ex_env_refusing (text_backend n pageCount) c) (path ex_pdf)
     = Inr (replicate n (CHR ''a''), Some pageCount)"
  by (simp add: extractPdfText_def ex_env_refusing_def ex_env_def ex_pdf_def text_backend_def
      or_empty_def js_trim_replicate_a)

lemma ex_long_assembly:
  "createContentWithFiles (ex_env_notes (text_backend 40001 100) False) [ex_pdf]
     (Some GENERATE_INSTRUCTION) ex_world = Inr ex_long_asm"
proof -
  have s: "\<not> shouldRenderVisual (length (replicate 40001 (CHR ''a''))) (pages_of (Some 100))"
    by (simp add: shouldRenderVisual_nat pages_of_def)
  have i: "or_empty (Some GENERATE_INSTRUCTION) = GENERATE_INSTRUCTION" "GENERATE_INSTRUCTION \<noteq> []"
    by (simp_all add: or_empty_def GENERATE_INSTRUCTION_def)
  have c: "TextBlock GENERATE_INSTRUCTION # tl ex_long_content = ex_long_content"
    by (simp add: ex_long_content_def)
  show ?thesis
    unfolding single_pdf_assembly_plain[OF ex_pdf_media_type ex_extract_notes s]
      ex_file_label ex_long_chunks ex_long_chunk_blocks
    by (simp add: i c ex_long_asm_def)
qed

lemma ex_long_text_blocks:
  "filter is_text (content ex_long_asm) = ex_long_content"
  "filter is_image (content ex_long_asm) = []"
  "length ex_long_content = 5"
  by (simp_all add: ex_long_asm_def ex_long_content_def)

lemma ex_long_requests_nth:
  "map (\<lambda>i. notes_request i 5 (block_text (ex_long_content ! i))) [1..<5] = ex_long_requests"
  unfolding upt_1_5 by (simp add: ex_long_requests_def ex_long_content_def)

lemma ex_env_notes_answer:
  "messages_create (ex_env_notes b c) sent r = Inr (Some (ex_note (length sent)))"
  by (simp add: ex_env_notes_def)

lemma ex_env_notes_key: "api_key_set (ex_env_notes b c)"
  by (simp add: ex_env_notes_def ex_env_def)

lemma ex_env_notes_answers: "\<forall>log r. \<exists>t. messages_create (ex_env_notes b c) log r = Inr t"
  by (simp add: ex_env_notes_answer)

lemma ex_long_requests_length: "length ex_long_requests = 4"
  by (simp add: ex_long_requests_def)

lemma ex_notes_in_order:
  assumes "length ts = 4"
    and "\<forall>k<4. messages_create (ex_env_notes b c) (take k ex_long_requests) (ex_long_requests ! k)
            = Inr (ts ! k)"
  shows "map or_empty ts = ex_notes"
proof -
  have n: "\<And>k. k < 4 \<Longrightarrow> ts ! k = Some (ex_note k)"
  proof -
    fix k :: nat assume k: "k < 4"
    with assms(2) have "Inr (Some (ex_note (length (take k ex_long_requests)))) = Inr (ts ! k)"
      unfolding ex_env_notes_answer by blast
    then show "ts ! k = Some (ex_note k)"
      using k by (simp add: ex_long_requests_length)
  qed
  from assms(1) obtain t0 t1 t2 t3 where ts: "ts = [t0, t1, t2, t3]"
    by (auto simp: length_Suc_conv numeral_eq_Suc)
  from n[of 0] n[of 1] n[of 2] n[of 3] show ?thesis
    unfolding ts by (simp add: or_empty_def ex_notes_def)
qed

section \<open>Claims\<close>

subsection \<open>C1: a failed text extraction\<close>

text \<open>
  Claim C1 says that the assembler catches a failed extraction, treats the PDF as having no
  text, and lets the request complete. The source has no handler around
  \<open>extractPdfText\<close>: the exception leaves \<open>createContentWithFiles\<close> and reaches the
  \<open>catch\<close> of the handler. As amended: whenever the credential is configured and the
  request contains a PDF whose extraction fails, the assembler fails, the request ends with
  status 500 and the message "Failed to generate breakdown", and no request is sent to the
  summarization service.
\<close>

theorem extraction_failure_aborts_request:
  assumes "api_key_set e" and "f \<in> set files"
    and "getMediaType (file_label f) = ''application/pdf''"
    and "extractPdfText e (path f) = Inl err"
  shows "(\<exists>x. createContentWithFiles e files (Some GENERATE_INSTRUCTION) w = Inl x) \<and>
         fst (generate_breakdown e files w) = ErrorResponse 500 ''Failed to generate breakdown'' \<and>
         calls (snd (generate_breakdown e files w)) = calls w"
  using extraction_failure_propagates[OF assms] .

theorem extraction_failure_aborts_request_witness:
  "api_key_set (ex_env failing_backend False) \<and> ex_pdf \<in> set [ex_pdf] \<and>
   getMediaType (file_label ex_pdf) = ''application/pdf'' \<and>
   extractPdfText (ex_env failing_backend False) (path ex_pdf)
     = Inl (ExtractionError ''Unsupported pdf-parse module shape'') \<and>
   fst (generate_breakdown (ex_env failing_backend False) [ex_pdf] ex_world)
     = ErrorResponse 500 ''Failed to generate breakdown'' \<and>
   calls (snd (generate_breakdown (ex_env failing_backend False) [ex_pdf] ex_world)) = []"
proof -
  have m: "ex_pdf \<in> set [ex_pdf]" by simp
  have c: "calls ex_world = []" by (simp add: ex_world_def)
  from extraction_failure_aborts_request[OF ex_env_key m ex_pdf_media_type ex_extract_fail, of False ex_world]
  show ?thesis using ex_env_key m ex_pdf_media_type ex_extract_fail c by simp
qed

text \<open>
  The claim as stated fails on a request with one PDF and a backend of unsupported shape:
  extraction fails and the response is the error, not a breakdown.
\<close>

theorem extraction_failure_counterexample:
  "extractPdfText (ex_env failing_backend False) (path ex_pdf)
     = Inl (ExtractionError ''Unsupported pdf-parse module shape'') \<and>
   fst (generate_breakdown (ex_env failing_backend False) [ex_pdf] ex_world)
     = ErrorResponse 500 ''Failed to generate breakdown''"
proof -
  have m: "ex_pdf \<in> set [ex_pdf]" by simp
  from extraction_failure_propagates[OF ex_env_key m ex_pdf_media_type ex_extract_fail, of False ex_world]
  show ?thesis using ex_extract_fail by simp
qed

subsection \<open>C2: the multi-pass threshold\<close>

text \<open>
  Claim C2 says that a total of extracted characters at or above the threshold takes the
  multi-pass path. The source compares with a strict greater-than. As amended: for a
  request that passes validation and whose content is assembled, a total up to and
  including the threshold takes the single-pass path: exactly one request is sent, the
  direct synthesis of the assembled content, and its answer is the breakdown. A total above
  the threshold takes the multi-pass path: the notes requests for the text blocks after the
  instruction are sent in the order of the blocks, there is at least one, and when all
  \<open>m\<close> of them are answered the final synthesis request, built from the image blocks and
  the answers joined in that order, follows and its answer is the breakdown; when one is
  not answered no further request is sent and the response is the error.
\<close>

theorem multipass_threshold_is_strict:
  assumes "length files \<noteq> 0" and "api_key_set e"
    and "createContentWithFiles e files (Some GENERATE_INSTRUCTION) w = Inr a"
  shows
    \<open>(totalExtractedPdfChars a \<le> MULTIPASS_THRESHOLD_CHARS \<longrightarrow>
        calls (snd (generate_breakdown e files w)) = calls w @ [direct_request (content a)] \<and>
        fst (generate_breakdown e files w) =
          (case messages_create e (calls w) (direct_request (content a)) of
             Inl err \<Rightarrow> ErrorResponse 500 ''Failed to generate breakdown''
           | Inr t \<Rightarrow> BreakdownResponse (or_empty t)
                        [(User, content a), (Assistant, [TextBlock (or_empty t)])])) \<and>
     (totalExtractedPdfChars a > MULTIPASS_THRESHOLD_CHARS \<longrightarrow>
        (let tb = filter is_text (content a);
             n = length tb;
             reqs = map (\<lambda>i. \<lparr>max_tokens = 2500, system = NOTES_SYSTEM_PROMPT,
                               messages = [(User, [TextBlock
                                 (''Extract production notes from this chunk ('' @ show_nat (i + 1) @
                                  ''/'' @ show_nat n @ '').\<newline>\<newline>'' @ block_text (tb ! i))])]\<rparr>)
                      [1..<n];
             final = (\<lambda>notes. \<lparr>max_tokens = MAX_TOKENS, system = SYSTEM_PROMPT,
                        messages = [(User, [TextBlock FINAL_INSTRUCTION] @ filter is_image (content a) @
                          [TextBlock
                             (''\<newline>\<newline>===== EXTRACTED NOTES (MULTI-PASS) =====\<newline>'' @
                              js_join ''\<newline>\<newline>---\<newline>\<newline>'' notes @
                              ''\<newline>===== END EXTRACTED NOTES =====\<newline>'')])]\<rparr>)
         in reqs \<noteq> [] \<and>
            (\<exists>m ts. m \<le> length reqs \<and> length ts = m \<and>
               (\<forall>k<m. messages_create e (calls w @ take k reqs) (reqs ! k) = Inr (ts ! k)) \<and>
               (if m = length reqs
                then calls (snd (generate_breakdown e files w))
                       = calls w @ reqs @ [final (map or_empty ts)] \<and>
                     fst (generate_breakdown e files w) =
                       (case messages_create e (calls w @ reqs) (final (map or_empty ts)) of
                          Inl err \<Rightarrow> ErrorResponse 500 ''Failed to generate breakdown''
                        | Inr t \<Rightarrow> BreakdownResponse (or_empty t)
                                     [(User, content a), (Assistant, [TextBlock (or_empty t)])])
                else (\<exists>err. messages_create e (calls w @ take m reqs) (reqs ! m) = Inl err) \<and>
                     calls (snd (generate_breakdown e files w)) = calls w @ take (Suc m) reqs \<and>
                     fst (generate_breakdown e files w)
                       = ErrorResponse 500 ''Failed to generate breakdown''))))\<close>
proof (intro conjI impI)
  have cw: "calls (a_world a) = calls w" using assembled_shape[OF assms(3)] by auto
  note resp = generate_response_after_assembly[OF assms]
  note cls = generate_try_after_assembly[OF assms]
  {
    assume le: "totalExtractedPdfChars a \<le> MULTIPASS_THRESHOLD_CHARS"
    show "calls (snd (generate_breakdown e files w)) = calls w @ [direct_request (content a)]"
      unfolding cls synthesize_single[OF le] by (simp add: api_call_eq cw)
    show "fst (generate_breakdown e files w) =
          (case messages_create e (calls w) (direct_request (content a)) of
             Inl err \<Rightarrow> ErrorResponse 500 ''Failed to generate breakdown''
           | Inr t \<Rightarrow> BreakdownResponse (or_empty t)
                        [(User, content a), (Assistant, [TextBlock (or_empty t)])])"
      unfolding resp synthesize_single[OF le] by (simp add: api_call_eq cw split: sum.splits)
  }
  assume gt: "totalExtractedPdfChars a > MULTIPASS_THRESHOLD_CHARS"
  let ?tb = "filter is_text (content a)"
  let ?n = "length ?tb"
  let ?reqs = "map (\<lambda>i. notes_request i ?n (block_text (?tb ! i))) [1..<?n]"
  let ?final = "\<lambda>notes. final_request (filter is_image (content a)) notes"
  from assembled_text_blocks[OF assms(3)] gt have n2: "2 \<le> ?n"
    by (auto simp: Suc_le_eq)
  then have "Suc 0 < ?n" by simp
  then have "\<not> (?n = 0 \<or> ?n \<le> 1)" by linarith
  then have "[1..<?n] \<noteq> []" by (simp only: upt_eq_Nil_conv not_False_eq_True)
  then have ne: "?reqs \<noteq> []" by (simp only: map_is_Nil_conv not_False_eq_True)
  have lr: "length ?reqs = ?n - 1" by simp
  from multipass_run_on_assembled[OF assms(3), of "a_world a"] obtain m ts where
    m: "m \<le> ?n - 1" "length ts = m"
       "\<forall>k<m. messages_create e (calls w @ take k ?reqs) (?reqs ! k) = Inr (ts ! k)"
       "if m = ?n - 1
        then runMultiPassBreakdown e (content a) (a_world a)
               = api_call e (?final (map or_empty ts)) ((a_world a)\<lparr>calls := calls w @ ?reqs\<rparr>)
        else (\<exists>err. messages_create e (calls w @ take m ?reqs) (?reqs ! m) = Inl err \<and>
                runMultiPassBreakdown e (content a) (a_world a)
                  = (Inl err, (a_world a)\<lparr>calls := calls w @ take (Suc m) ?reqs\<rparr>))"
    unfolding cw by blast
  have main: "if m = length ?reqs
        then calls (snd (generate_breakdown e files w)) = calls w @ ?reqs @ [?final (map or_empty ts)] \<and>
             fst (generate_breakdown e files w) =
               (case messages_create e (calls w @ ?reqs) (?final (map or_empty ts)) of
                  Inl err \<Rightarrow> ErrorResponse 500 ''Failed to generate breakdown''
                | Inr t \<Rightarrow> BreakdownResponse (or_empty t)
                             [(User, content a), (Assistant, [TextBlock (or_empty t)])])
        else (\<exists>err. messages_create e (calls w @ take m ?reqs) (?reqs ! m) = Inl err) \<and>
             calls (snd (generate_breakdown e files w)) = calls w @ take (Suc m) ?reqs \<and>
             fst (generate_breakdown e files w) = ErrorResponse 500 ''Failed to generate breakdown''"
  proof (cases "m = ?n - 1")
    case True
    with m(4) have run: "runMultiPassBreakdown e (content a) (a_world a)
               = api_call e (?final (map or_empty ts)) ((a_world a)\<lparr>calls := calls w @ ?reqs\<rparr>)"
      by simp
    show ?thesis
      unfolding lr cls resp synthesize_multi[OF gt] run
      using True by (simp add: api_call_eq split: sum.splits)
  next
    case False
    with m(4) obtain err where
      err: "messages_create e (calls w @ take m ?reqs) (?reqs ! m) = Inl err"
           "runMultiPassBreakdown e (content a) (a_world a)
              = (Inl err, (a_world a)\<lparr>calls := calls w @ take (Suc m) ?reqs\<rparr>)"
      by auto
    show ?thesis
      unfolding lr cls resp synthesize_multi[OF gt] err(2)
      using False err(1) by auto
  qed
  have "?reqs \<noteq> [] \<and>
     (\<exists>m ts. m \<le> length ?reqs \<and> length ts = m \<and>
        (\<forall>k<m. messages_create e (calls w @ take k ?reqs) (?reqs ! k) = Inr (ts ! k)) \<and>
        (if m = length ?reqs
        then calls (snd (generate_breakdown e files w)) = calls w @ ?reqs @ [?final (map or_empty ts)] \<and>
             fst (generate_breakdown e files w) =
               (case messages_create e (calls w @ ?reqs) (?final (map or_empty ts)) of
                  Inl err \<Rightarrow> ErrorResponse 500 ''Failed to generate breakdown''
                | Inr t \<Rightarrow> BreakdownResponse (or_empty t)
                             [(User, content a), (Assistant, [TextBlock (or_empty t)])])
        else (\<exists>err. messages_create e (calls w @ take m ?reqs) (?reqs ! m) = Inl err) \<and>
             calls (snd (generate_breakdown e files w)) = calls w @ take (Suc m) ?reqs \<and>
             fst (generate_breakdown e files w) = ErrorResponse 500 ''Failed to generate breakdown''))"
    using ne m(1,2,3) main unfolding lr by blast
  then show "let tb = filter is_text (content a);
             n = length tb;
             reqs = map (\<lambda>i. \<lparr>max_tokens = 2500, system = NOTES_SYSTEM_PROMPT,
                               messages = [(User, [TextBlock
                                 (''Extract production notes from this chunk ('' @ show_nat (i + 1) @
                                  ''/'' @ show_nat n @ '').\<newline>\<newline>'' @ block_text (tb ! i))])]\<rparr>)
                      [1..<n];
             final = (\<lambda>notes. \<lparr>max_tokens = MAX_TOKENS, system = SYSTEM_PROMPT,
                        messages = [(User, [TextBlock FINAL_INSTRUCTION] @ filter is_image (content a) @
                          [TextBlock
                             (''\<newline>\<newline>===== EXTRACTED NOTES (MULTI-PASS) =====\<newline>'' @
                              js_join ''\<newline>\<newline>---\<newline>\<newline>'' notes @
                              ''\<newline>===== END EXTRACTED NOTES =====\<newline>'')])]\<rparr>)
         in reqs \<noteq> [] \<and>
            (\<exists>m ts. m \<le> length reqs \<and> length ts = m \<and>
               (\<forall>k<m. messages_create e (calls w @ take k reqs) (reqs ! k) = Inr (ts ! k)) \<and>
               (if m = length reqs
                then calls (snd (generate_breakdown e files w))
                       = calls w @ reqs @ [final (map or_empty ts)] \<and>
                     fst (generate_breakdown e files w) =
                       (case messages_create e (calls w @ reqs) (final (map or_empty ts)) of
                          Inl err \<Rightarrow> ErrorResponse 500 ''Failed to generate breakdown''
                        | Inr t \<Rightarrow> BreakdownResponse (or_empty t)
                                     [(User, content a), (Assistant, [TextBlock (or_empty t)])])
                else (\<exists>err. messages_create e (calls w @ take m reqs) (reqs ! m) = Inl err) \<and>
                     calls (snd (generate_breakdown e files w)) = calls w @ take (Suc m) reqs \<and>
                     fst (generate_breakdown e files w)
                       = ErrorResponse 500 ''Failed to generate breakdown''))"
    unfolding Let_def notes_request_def final_request_def finalUserContent_def .
qed

theorem multipass_threshold_is_strict_witness:
  "createContentWithFiles (ex_env_notes (text_backend 40001 100) False) [ex_pdf]
     (Some GENERATE_INSTRUCTION) ex_world = Inr ex_long_asm \<and>
   totalExtractedPdfChars ex_long_asm = 40001 \<and>
   calls (snd (generate_breakdown (ex_env_notes (text_backend 40001 100) False) [ex_pdf] ex_world))
     = ex_long_requests @ [final_request [] ex_notes] \<and>
   fst (generate_breakdown (ex_env_notes (text_backend 40001 100) False) [ex_pdf] ex_world)
     = BreakdownResponse (ex_note 4) [(User, ex_long_content), (Assistant, [TextBlock (ex_note 4)])] \<and>
   totalExtractedPdfChars (projr (createContentWithFiles (ex_env (text_backend 40000 100) False)
       [ex_pdf] (Some GENERATE_INSTRUCTION) ex_world)) = 40000 \<and>
   calls (snd (generate_breakdown (ex_env (text_backend 40000 100) False) [ex_pdf] ex_world))
     = [direct_request (content (projr (createContentWithFiles (ex_env (text_backend 40000 100) False)
         [ex_pdf] (Some GENERATE_INSTRUCTION) ex_world)))]"
proof -
  let ?e = "ex_env_notes (text_backend 40001 100) False"
  have n: "length [ex_pdf] \<noteq> 0" by simp
  have cw: "calls ex_world = []" by (simp add: ex_world_def)
  have tot: "totalExtractedPdfChars ex_long_asm = 40001" by (simp add: ex_long_asm_def)
  have gt: "totalExtractedPdfChars ex_long_asm > MULTIPASS_THRESHOLD_CHARS"
    by (simp add: tot MULTIPASS_THRESHOLD_CHARS_def)
  have con: "content ex_long_asm = ex_long_content" by (simp add: ex_long_asm_def)
  note t = multipass_threshold_is_strict[OF n ex_env_notes_key ex_long_assembly, THEN conjunct2, rule_format, OF gt,
      unfolded Let_def, folded notes_request_def finalUserContent_def final_request_def,
      unfolded ex_long_text_blocks ex_long_requests_nth cw append_Nil ex_long_requests_length]
  from t obtain m ts where
    m: "m \<le> 4" "length ts = m"
       "\<forall>k<m. messages_create ?e (take k ex_long_requests) (ex_long_requests ! k) = Inr (ts ! k)"
       "if m = 4
        then calls (snd (generate_breakdown ?e [ex_pdf] ex_world))
               = ex_long_requests @ [final_request [] (map or_empty ts)] \<and>
             fst (generate_breakdown ?e [ex_pdf] ex_world) =
               (case messages_create ?e ex_long_requests (final_request [] (map or_empty ts)) of
                  Inl err \<Rightarrow> ErrorResponse 500 ''Failed to generate breakdown''
                | Inr t \<Rightarrow> BreakdownResponse (or_empty t)
                             [(User, content ex_long_asm), (Assistant, [TextBlock (or_empty t)])])
        else (\<exists>err. messages_create ?e (take m ex_long_requests) (ex_long_requests ! m) = Inl err) \<and>
             calls (snd (generate_breakdown ?e [ex_pdf] ex_world)) = take (Suc m) ex_long_requests \<and>
             fst (generate_breakdown ?e [ex_pdf] ex_world)
               = ErrorResponse 500 ''Failed to generate breakdown''"
    by blast
  have m4: "m = 4"
  proof (rule ccontr)
    assume "m \<noteq> 4"
    with m(4) show False by (simp add: ex_env_notes_answer)
  qed
  have ns: "map or_empty ts = ex_notes"
    by (rule ex_notes_in_order) (use m(2,3) m4 in simp_all)
  from m(4) m4 have multi:
    "calls (snd (generate_breakdown ?e [ex_pdf] ex_world))
       = ex_long_requests @ [final_request [] ex_notes]"
    "fst (generate_breakdown ?e [ex_pdf] ex_world)
       = BreakdownResponse (ex_note 4) [(User, ex_long_content), (Assistant, [TextBlock (ex_note 4)])]"
    by (simp_all add: ns ex_env_notes_answer ex_long_requests_length or_empty_def con)
  from ex_text_assembly[of 40000 100 False] obtain a where
    a: "createContentWithFiles (ex_env (text_backend 40000 100) False) [ex_pdf]
          (Some GENERATE_INSTRUCTION) ex_world = Inr a"
       "totalExtractedPdfChars a = 40000"
    by blast
  have la: "totalExtractedPdfChars a \<le> MULTIPASS_THRESHOLD_CHARS"
    by (simp add: a(2) MULTIPASS_THRESHOLD_CHARS_def)
  from multipass_threshold_is_strict[OF n ex_env_key a(1), THEN conjunct1, rule_format, OF la]
  have single: "calls (snd (generate_breakdown (ex_env (text_backend 40000 100) False) [ex_pdf] ex_world))
      = [direct_request (content a)]"
    by (simp add: cw)
  show ?thesis
    using ex_long_assembly tot multi single a by simp
qed

text \<open>
  With exactly 40000 extracted characters the only request sent is the direct synthesis.
\<close>

theorem multipass_at_threshold_counterexample:
  "totalExtractedPdfChars (projr (createContentWithFiles (ex_env (text_backend 40000 100) False)
       [ex_pdf] (Some GENERATE_INSTRUCTION) ex_world)) = MULTIPASS_THRESHOLD_CHARS \<and>
   calls (snd (generate_breakdown (ex_env (text_backend 40000 100) False) [ex_pdf] ex_world))
     = [direct_request (content (projr (createContentWithFiles (ex_env (text_backend 40000 100) False)
       [ex_pdf] (Some GENERATE_INSTRUCTION) ex_world)))]"
proof -
  let ?e = "ex_env (text_backend 40000 100) False"
  from ex_text_assembly[of 40000 100 False] obtain a where
    a: "createContentWithFiles ?e [ex_pdf] (Some GENERATE_INSTRUCTION) ex_world = Inr a"
       "totalExtractedPdfChars a = 40000"
    by blast
  have k: "api_key_set ?e" by (simp add: ex_env_def)
  have n: "length [ex_pdf] \<noteq> 0" by simp
  have "calls (snd (generate_breakdown ?e [ex_pdf] ex_world)) = calls ex_world @ [direct_request (content a)]"
    by (rule generate_path(1)[OF n k a(1)]) (simp add: a(2) MULTIPASS_THRESHOLD_CHARS_def)
  then show ?thesis using a by (simp add: MULTIPASS_THRESHOLD_CHARS_def ex_world_def)
qed

subsection \<open>C3: cleanup of the uploaded files\<close>

text \<open>
  Claim C3 says that after a generate request, whatever its outcome, no uploaded file is
  left in temporary storage. The \<open>finally\<close> block unlinks every uploaded path on every
  exit path and ignores an unlink that fails. As amended: after a generate request,
  whatever its outcome (no files, no credential, a failure in assembly or synthesis, or
  success), every uploaded file whose unlink the file system does not refuse is gone from
  temporary storage. The statement holds for every outside world, every list of files and
  every initial state.
\<close>

theorem uploaded_files_deleted_unless_unlink_refused:
  "\<forall>f \<in> set files. unlink_error e (path f) = None \<longrightarrow>
     path f \<notin> stored (snd (generate_breakdown e files w))"
  by (simp add: generate_breakdown_stored)

theorem uploaded_files_deleted_unless_unlink_refused_witness:
  "unlink_error (ex_env scanned_backend True) (path ex_pdf) = None \<and>
   path ex_pdf \<in> stored ex_world \<and>
   path ex_pdf \<notin> stored (snd (generate_breakdown (ex_env scanned_backend True) [ex_pdf] ex_world))"
proof -
  have u: "unlink_error (ex_env scanned_backend True) (path ex_pdf) = None"
    by (simp add: ex_env_def)
  have m: "ex_pdf \<in> set [ex_pdf]" by simp
  have s: "path ex_pdf \<in> stored ex_world" by (simp add: ex_world_def ex_pdf_def)
  from uploaded_files_deleted_unless_unlink_refused[of "[ex_pdf]" "ex_env scanned_backend True" ex_world] m u
  have "path ex_pdf \<notin> stored (snd (generate_breakdown (ex_env scanned_backend True) [ex_pdf] ex_world))"
    by blast
  with u s show ?thesis by blast
qed

text \<open>
  The claim as stated fails where the file system refuses the unlink: the uploaded PDF is
  still in storage when the request has ended.
\<close>

theorem uploaded_file_left_counterexample:
  "path ex_pdf \<in> stored ex_world \<and>
   path ex_pdf \<in> stored (snd (generate_breakdown (ex_env_refusing (text_backend 2000 3) False)
                               [ex_pdf] ex_world))"
proof -
  let ?e = "ex_env_refusing (text_backend 2000 3) False"
  have s: "\<not> shouldRenderVisual (length (replicate 2000 (CHR ''a''))) (pages_of (Some 3))"
    by (simp add: shouldRenderVisual_nat pages_of_def)
  note a = single_pdf_assembly_plain[OF ex_pdf_media_type ex_extract_refusing s,
      of False "Some GENERATE_INSTRUCTION" ex_world]
  have k: "api_key_set ?e" by (simp add: ex_env_refusing_def ex_env_def)
  have u: "\<And>p. unlink_error ?e p = Some (IOError ''EPERM'')" by (simp add: ex_env_refusing_def)
  have n: "length [ex_pdf] \<noteq> 0" by simp
  have "stored (snd (generate_breakdown ?e [ex_pdf] ex_world)) = stored ex_world"
    unfolding generate_stored_after_assembly[OF n k a] using u by simp
  then show ?thesis by (simp add: ex_world_def ex_pdf_def)
qed

subsection \<open>C4: the chunker\<close>

text \<open>
  Claim C4 says that the chunks, with the overlaps removed, give back the text \<open>T\<close>
  exactly, also when \<open>T\<close> contains CR LF. \<open>chunkText\<close> is a function of its arguments,
  so two applications agree; but it first replaces every CR LF by LF and returns no chunk
  for a text that is empty or white space only. As amended: for an overlap smaller than the
  window the loop returns; the result is empty when the normalised text is white space
  only, and otherwise the first chunk followed by every later chunk without its first
  \<open>overlap\<close> characters is the normalised text (which is \<open>T\<close> itself when \<open>T\<close> has
  no CR LF).
\<close>

theorem chunkText_reconstructs_normalised_text:
  assumes "overlap < chunkSize"
  shows "\<exists>chunks. chunkText T chunkSize overlap = Some chunks \<and>
     (if js_trim (replace_crlf T) = [] then chunks = []
      else reconstruct overlap chunks = replace_crlf T)"
  using chunkText_ok[OF assms, of T] by auto

theorem chunkText_reconstructs_normalised_text_witness:
  "(1::nat) < 4 \<and> (\<exists>chunks. chunkText ''abcdefghij'' 4 1 = Some chunks \<and>
      reconstruct 1 chunks = ''abcdefghij'')"
  using chunkText_reconstructs_normalised_text[of 1 4 "''abcdefghij''"]
  by (simp add: js_trim_def is_js_space_def)

text \<open>
  For the text a, CR, LF, b the only chunk is a, LF, b, which is not the text.
\<close>

theorem chunkText_crlf_counterexample:
  "chunkText ex_text 10 0 = Some [ex_text_normalised] \<and>
   reconstruct 0 [ex_text_normalised] \<noteq> ex_text"
  by (simp add: ex_text_def ex_text_normalised_def chunkText_def js_trim_def is_js_space_def
      chunk_loop.simps js_slice_def)

subsection \<open>C5: the rendered page when encoding fails\<close>

text \<open>
  Claim C5 says that the rendered image file is deleted also when encoding it fails. In
  the source the \<open>unlink\<close> is the last statement of the \<open>try\<close> body, so a failure of
  \<open>fileToBase64\<close> skips it (after a successful encoding the file is unlinked, lemma
  \<open>render_pages_deletes_encoded\<close>). In the example request the scanned PDF has one page,
  page 1 is rendered to a JPEG and reading the JPEG fails: the JPEG is still in storage
  when the request has ended.
\<close>

theorem rendered_page_left_when_encoding_fails:
  "''uploads/brief-page-1.jpg'' \<in>
     stored (snd (generate_breakdown (ex_env scanned_backend True) [ex_pdf] ex_world))"
proof -
  from ex_scanned_assembly obtain a where
    a: "createContentWithFiles (ex_env scanned_backend True) [ex_pdf] (Some GENERATE_INSTRUCTION) ex_world = Inr a"
       "stored (a_world a) = {''uploads/brief-page-1.jpg'', ''uploads/1700000000000-brief.pdf''}"
    by blast
  have k: "api_key_set (ex_env scanned_backend True)" by (simp add: ex_env_def)
  have "stored (snd (generate_breakdown (ex_env scanned_backend True) [ex_pdf] ex_world))
      = stored (a_world a) - {p \<in> set (map path [ex_pdf]).
            unlink_error (ex_env scanned_backend True) p = None}"
    by (rule generate_stored_after_assembly[OF _ k a(1)]) simp
  then show ?thesis using a(2) by (simp add: ex_pdf_def)
qed

subsection \<open>C6: the visual fallback decision\<close>

text \<open>
  Claim C6: for a PDF with extracted text \<open>t\<close> and page count \<open>numpages\<close>, the flag
  \<open>shouldRenderVisual\<close> is set exactly when the page count is positive and the text is
  shorter than the minimum or has fewer characters per page than the density threshold; the
  assembler emits fallback blocks before the chunk blocks exactly when the flag is set; 500
  characters on 10 pages set the flag, 5000 characters on 10 pages do not.
\<close>

theorem visual_fallback_decision:
  assumes "getMediaType (file_label f) = ''application/pdf''"
    and "extractPdfText e (path f) = Inr (t, numpages)"
  shows "(shouldRenderVisual (length t) (pages_of numpages) \<longleftrightarrow>
           pages_of numpages > 0 \<and>
           (length t < VISUAL_FALLBACK_MIN_TEXT_CHARS \<or>
            real (length t) / real (pages_of numpages) < VISUAL_FALLBACK_MAX_CHARS_PER_PAGE)) \<and>
         (\<exists>a' fallback. process_file e cr f a = Inr a' \<and>
            content a' = content a @ fallback @ chunk_blocks (file_label f) (pdf_chunks t) \<and>
            (fallback \<noteq> []) = shouldRenderVisual (length t) (pages_of numpages)) \<and>
         shouldRenderVisual 500 (pages_of (Some 10)) \<and>
         \<not> shouldRenderVisual 5000 (pages_of (Some 10))"
proof (intro conjI)
  show "shouldRenderVisual (length t) (pages_of numpages) \<longleftrightarrow>
           pages_of numpages > 0 \<and>
           (length t < VISUAL_FALLBACK_MIN_TEXT_CHARS \<or>
            real (length t) / real (pages_of numpages) < VISUAL_FALLBACK_MAX_CHARS_PER_PAGE)"
    by (auto simp: shouldRenderVisual_def charsPerPage_def)
  show "\<exists>a' fallback. process_file e cr f a = Inr a' \<and>
            content a' = content a @ fallback @ chunk_blocks (file_label f) (pdf_chunks t) \<and>
            (fallback \<noteq> []) = shouldRenderVisual (length t) (pages_of numpages)"
    by (rule process_file_pdf_content[OF assms])
  show "shouldRenderVisual 500 (pages_of (Some 10))"
    by (simp add: pages_of_def shouldRenderVisual_nat)
  show "\<not> shouldRenderVisual 5000 (pages_of (Some 10))"
    by (simp add: pages_of_def shouldRenderVisual_nat)
qed

theorem visual_fallback_decision_witness:
  "getMediaType (file_label ex_pdf) = ''application/pdf'' \<and>
   extractPdfText (ex_env (text_backend 500 10) False) (path ex_pdf)
     = Inr (replicate 500 (CHR ''a''), Some 10) \<and>
   shouldRenderVisual (length (replicate 500 (CHR ''a''))) (pages_of (Some 10)) \<and>
   extractPdfText (ex_env (text_backend 5000 10) False) (path ex_pdf)
     = Inr (replicate 5000 (CHR ''a''), Some 10) \<and>
   \<not> shouldRenderVisual (length (replicate 5000 (CHR ''a''))) (pages_of (Some 10))"
proof -
  from visual_fallback_decision[OF ex_pdf_media_type ex_extract_text, of 500 10 False]
  have 1: "shouldRenderVisual (length (replicate 500 (CHR ''a''))) (pages_of (Some 10))"
    unfolding length_replicate_a by blast
  from visual_fallback_decision[OF ex_pdf_media_type ex_extract_text, of 5000 10 False]
  have 2: "\<not> shouldRenderVisual (length (replicate 5000 (CHR ''a''))) (pages_of (Some 10))"
    unfolding length_replicate_a by blast
  show ?thesis using 1 2 ex_pdf_media_type ex_extract_text by blast
qed

subsection \<open>C7: the sampled pages\<close>

text \<open>
  Claim C7: for a positive page count the pages to render are page 1 followed by the pages
  \<open>1 + k * interval\<close> up to the page count, with \<open>interval = max 2 (pages div 5)\<close>, cut
  to the render cap: they start with page 1, are distinct, lie in the range of the
  document and are at most \<open>VISUAL_RENDER_MAX_PAGES\<close>; for 20 pages the pages before
  the cap are 1, 5, 9, 13, 17.
\<close>

theorem sampled_pages:
  assumes "0 < pages"
  shows "cappedPages pages
           = take VISUAL_RENDER_MAX_PAGES
               (map (\<lambda>k. 1 + k * max 2 (pages div 5)) [0..<Suc ((pages - 1) div max 2 (pages div 5))]) \<and>
         hd (cappedPages pages) = 1 \<and>
         distinct (cappedPages pages) \<and>
         (\<forall>p \<in> set (cappedPages pages). 1 \<le> p \<and> p \<le> pages) \<and>
         length (cappedPages pages) \<le> VISUAL_RENDER_MAX_PAGES \<and>
         uniquePages 20 = [1, 5, 9, 13, 17]"
proof (intro conjI)
  let ?i = "max 2 (pages div 5)"
  let ?xs = "map (\<lambda>k. 1 + k * ?i) [0..<Suc ((pages - 1) div ?i)]"
  have u: "uniquePages pages = ?xs"
    using uniquePages_closed[OF assms] by (simp only: interval_of_def)
  show c: "cappedPages pages = take VISUAL_RENDER_MAX_PAGES ?xs"
    by (simp only: cappedPages_take u)
  have xs: "?xs = 1 # map (\<lambda>k. 1 + Suc k * ?i) [0..<(pages - 1) div ?i]"
    by (subst map_upt_Suc) simp
  show "hd (cappedPages pages) = 1"
    unfolding c xs by (simp add: VISUAL_RENDER_MAX_PAGES_def)
  have "distinct ?xs" by (rule progression_distinct) simp
  then show "distinct (cappedPages pages)"
    unfolding c by (rule distinct_take)
  show "\<forall>p \<in> set (cappedPages pages). 1 \<le> p \<and> p \<le> pages"
    using uniquePages_range[of pages] set_take_subset[of VISUAL_RENDER_MAX_PAGES "uniquePages pages"]
    unfolding cappedPages_take by blast
  show "length (cappedPages pages) \<le> VISUAL_RENDER_MAX_PAGES"
    unfolding cappedPages_take by (rule length_take[THEN ord_eq_le_trans]) simp
  show "uniquePages 20 = [1, 5, 9, 13, 17]" by (rule uniquePages_20)
qed

theorem sampled_pages_witness:
  "(0::nat) < 20 \<and> cappedPages 20 = [1, 5, 9, 13, 17] \<and> hd (cappedPages 20) = 1 \<and>
   distinct (cappedPages 20) \<and> length (cappedPages 20) \<le> VISUAL_RENDER_MAX_PAGES"
proof -
  have p: "(0::nat) < 20" by simp
  from sampled_pages[OF p] have "hd (cappedPages 20) = 1" "distinct (cappedPages 20)"
    "length (cappedPages 20) \<le> VISUAL_RENDER_MAX_PAGES"
    by blast+
  with p cappedPages_20 show ?thesis by blast
qed

subsection \<open>C8: the notes pass\<close>

text \<open>
  Claim C8: on the content that the generate handler assembles, the notes pass leaves out
  exactly the leading instruction block and sends one request for every other text block,
  in the order of the blocks, and the notes are concatenated in that order. The source
  skips a block by the prefix of its text; every other text block of the assembler starts
  with a marker, so on assembled content the loop of the source is the notes pass of the
  specification on all text blocks but the first. In a successful run the requests sent
  are, for \<open>i = 1, \<dots>, n - 1\<close> in this order, the notes request with the text of text
  block \<open>i\<close> alone, and then the final request, whose notes are the answers to these
  requests joined in the same order.
\<close>

theorem notes_pass_skips_only_leading_instruction:
  assumes "createContentWithFiles e files (Some GENERATE_INSTRUCTION) w0 = Inr a"
  shows
    \<open>let tb = filter is_text (content a);
         n = length tb;
         reqs = map (\<lambda>i. \<lparr>max_tokens = 2500, system = NOTES_SYSTEM_PROMPT,
                           messages = [(User, [TextBlock
                             (''Extract production notes from this chunk ('' @ show_nat (i + 1) @
                              ''/'' @ show_nat n @ '').\<newline>\<newline>'' @ block_text (tb ! i))])]\<rparr>)
                  [1..<n];
         final = (\<lambda>notes. \<lparr>max_tokens = MAX_TOKENS, system = SYSTEM_PROMPT,
                    messages = [(User, [TextBlock FINAL_INSTRUCTION] @ filter is_image (content a) @
                      [TextBlock
                         (''\<newline>\<newline>===== EXTRACTED NOTES (MULTI-PASS) =====\<newline>'' @
                          js_join ''\<newline>\<newline>---\<newline>\<newline>'' notes @
                          ''\<newline>===== END EXTRACTED NOTES =====\<newline>'')])]\<rparr>)
     in hd tb = TextBlock GENERATE_INSTRUCTION \<and>
        notes_loop e n (zip [0..<n] tb) [] w = spec_notes_pass e n (tl (zip [0..<n] tb)) [] w \<and>
        (\<forall>res w'. runMultiPassBreakdown e (content a) w = (Inr res, w') \<longrightarrow>
           (\<exists>ts tf. length ts = n - 1 \<and>
              (\<forall>k<length ts. messages_create e (calls w @ take k reqs) (reqs ! k) = Inr (ts ! k)) \<and>
              messages_create e (calls w @ reqs) (final (map or_empty ts)) = Inr tf \<and>
              res = or_empty tf \<and>
              calls w' = calls w @ reqs @ [final (map or_empty ts)]))\<close>
proof -
  let ?tb = "filter is_text (content a)"
  let ?n = "length ?tb"
  let ?reqs = "map (\<lambda>i. notes_request i ?n (block_text (?tb ! i))) [1..<?n]"
  have h: "hd ?tb = TextBlock GENERATE_INSTRUCTION"
    using assembled_text_blocks[OF assms] by auto
  have eq: "notes_loop e ?n (zip [0..<?n] ?tb) [] w = spec_notes_pass e ?n (tl (zip [0..<?n] ?tb)) [] w"
    by (rule notes_pass_on_assembled[OF assms])
  have run: "\<forall>res w'. runMultiPassBreakdown e (content a) w = (Inr res, w') \<longrightarrow>
           (\<exists>ts tf. length ts = ?n - 1 \<and>
              (\<forall>k<length ts. messages_create e (calls w @ take k ?reqs) (?reqs ! k) = Inr (ts ! k)) \<and>
              messages_create e (calls w @ ?reqs)
                (final_request (filter is_image (content a)) (map or_empty ts)) = Inr tf \<and>
              res = or_empty tf \<and>
              calls w' = calls w @ ?reqs @ [final_request (filter is_image (content a)) (map or_empty ts)])"
  proof (intro allI impI)
    fix res w'
    assume r: "runMultiPassBreakdown e (content a) w = (Inr res, w')"
    from multipass_run_on_assembled[OF assms, of w] obtain m ts where
      m: "length ts = m"
         "\<forall>k<m. messages_create e (calls w @ take k ?reqs) (?reqs ! k) = Inr (ts ! k)"
         "if m = ?n - 1
          then runMultiPassBreakdown e (content a) w
                 = api_call e (final_request (filter is_image (content a)) (map or_empty ts))
                     (w\<lparr>calls := calls w @ ?reqs\<rparr>)
          else (\<exists>err. messages_create e (calls w @ take m ?reqs) (?reqs ! m) = Inl err \<and>
                  runMultiPassBreakdown e (content a) w
                    = (Inl err, w\<lparr>calls := calls w @ take (Suc m) ?reqs\<rparr>))"
      by blast
    have mn: "m = ?n - 1"
    proof (rule ccontr)
      assume "m \<noteq> ?n - 1"
      with m(3) r show False by auto
    qed
    with m(3) r have ac: "api_call e (final_request (filter is_image (content a)) (map or_empty ts))
                     (w\<lparr>calls := calls w @ ?reqs\<rparr>) = (Inr res, w')"
      by simp
    then obtain tf where tf: "messages_create e (calls w @ ?reqs)
          (final_request (filter is_image (content a)) (map or_empty ts)) = Inr tf" "res = or_empty tf"
      by (auto simp: api_call_eq split: sum.splits)
    have "calls w' = calls w @ ?reqs @ [final_request (filter is_image (content a)) (map or_empty ts)]"
      using api_call_calls[OF ac] by simp
    with m(1,2) mn tf show "\<exists>ts tf. length ts = ?n - 1 \<and>
              (\<forall>k<length ts. messages_create e (calls w @ take k ?reqs) (?reqs ! k) = Inr (ts ! k)) \<and>
              messages_create e (calls w @ ?reqs)
                (final_request (filter is_image (content a)) (map or_empty ts)) = Inr tf \<and>
              res = or_empty tf \<and>
              calls w' = calls w @ ?reqs @ [final_request (filter is_image (content a)) (map or_empty ts)]"
      by (intro exI[of _ ts] exI[of _ tf]) simp
  qed
  show ?thesis
    unfolding Let_def
    using h eq run
    unfolding notes_request_def final_request_def finalUserContent_def
    by blast
qed

theorem notes_pass_skips_only_leading_instruction_witness:
  "createContentWithFiles (ex_env_notes (text_backend 40001 100) False) [ex_pdf]
     (Some GENERATE_INSTRUCTION) ex_world = Inr ex_long_asm \<and>
   filter is_text (content ex_long_asm) = ex_long_content \<and>
   fst (runMultiPassBreakdown (ex_env_notes (text_backend 40001 100) False)
          (content ex_long_asm) ex_world) = Inr (ex_note 4) \<and>
   calls (snd (runMultiPassBreakdown (ex_env_notes (text_backend 40001 100) False)
          (content ex_long_asm) ex_world))
     = ex_long_requests @ [final_request [] ex_notes]"
proof -
  let ?e = "ex_env_notes (text_backend 40001 100) False"
  from runMultiPass_succeeds[OF ex_env_notes_answers, of "text_backend 40001 100" False
      "content ex_long_asm" ex_world]
  obtain res w' where run: "runMultiPassBreakdown ?e (content ex_long_asm) ex_world = (Inr res, w')"
    by blast
  have cw: "calls ex_world = []" by (simp add: ex_world_def)
  note t = notes_pass_skips_only_leading_instruction[OF ex_long_assembly, of ex_world, unfolded Let_def,
      folded notes_request_def finalUserContent_def final_request_def,
      unfolded ex_long_text_blocks ex_long_requests_nth cw append_Nil]
  from t run obtain ts tf where
    ts: "length ts = 5 - 1"
        "\<forall>k<length ts. messages_create ?e (take k ex_long_requests) (ex_long_requests ! k) = Inr (ts ! k)"
        "messages_create ?e ex_long_requests (final_request [] (map or_empty ts)) = Inr tf"
        "res = or_empty tf"
        "calls w' = ex_long_requests @ [final_request [] (map or_empty ts)]"
    by blast
  have l: "length ts = 4" using ts(1) by simp
  have ns: "map or_empty ts = ex_notes"
    by (rule ex_notes_in_order[OF l]) (use ts(2) l in simp)
  have r: "res = ex_note 4"
    using ts(3,4) by (auto simp: ex_env_notes_answer ex_long_requests_length or_empty_def)
  show ?thesis
    using ex_long_assembly ex_long_text_blocks(1) run r ts(5) ns by simp
qed

subsection \<open>C9: growth of the history\<close>

text \<open>
  Claim C9: for a revise request whose history is the array \<open>H\<close>, every history that
  the handler returns is \<open>H\<close> followed by the new user turn and the new assistant turn:
  its length is \<open>length H + 2\<close> and its first \<open>length H\<close> entries are \<open>H\<close>; and the
  handler does return one when both texts are present, the credential is configured and
  the service answers.
\<close>

theorem revise_history_growth:
  assumes "conversationHistory body = Some (JArr H)"
  shows "(\<forall>b h. revise_breakdown e body = BreakdownResponse b h \<longrightarrow>
            length h = length H + 2 \<and> take (length H) h = H \<and>
            h ! length H = text_turn ''user''
               (revision_text (revisionRequest body) (currentBreakdown body)) \<and>
            h ! (length H + 1) = text_turn ''assistant'' b) \<and>
         (revisionRequest body \<noteq> [] \<and> currentBreakdown body \<noteq> [] \<and> r_api_key_set e \<and>
          (\<exists>t. r_messages_create e
                  \<lparr>max_tokens = MAX_TOKENS, system = SYSTEM_PROMPT,
                   messages = H @ [text_turn ''user''
                      (revision_text (revisionRequest body) (currentBreakdown body))]\<rparr> = Inr t)
          \<longrightarrow> (\<exists>b h. revise_breakdown e body = BreakdownResponse b h))"
proof (intro conjI allI impI)
  fix b h
  assume r: "revise_breakdown e body = BreakdownResponse b h"
  let ?u = "text_turn ''user'' (revision_text (revisionRequest body) (currentBreakdown body))"
  from r have h: "h = H @ [?u, text_turn ''assistant'' b]"
    unfolding revise_on_array[OF assms]
    by (auto split: if_splits sum.splits)
  show "length h = length H + 2" using h by simp
  show "take (length H) h = H" using h by simp
  show "h ! length H = ?u" using h by (simp add: nth_append)
  show "h ! (length H + 1) = text_turn ''assistant'' b" using h by (simp add: nth_append)
next
  assume "revisionRequest body \<noteq> [] \<and> currentBreakdown body \<noteq> [] \<and> r_api_key_set e \<and>
          (\<exists>t. r_messages_create e
                  \<lparr>max_tokens = MAX_TOKENS, system = SYSTEM_PROMPT,
                   messages = H @ [text_turn ''user''
                      (revision_text (revisionRequest body) (currentBreakdown body))]\<rparr> = Inr t)"
  then show "\<exists>b h. revise_breakdown e body = BreakdownResponse b h"
    unfolding revise_on_array[OF assms] by auto
qed

theorem revise_history_growth_witness:
  "conversationHistory (ex_body (Some (JArr ex_history))) = Some (JArr ex_history) \<and>
   revise_breakdown ex_revise_env (ex_body (Some (JArr ex_history)))
     = BreakdownResponse ''SHOOT DAYS: 3''
         (ex_history @ [text_turn ''user'' (revision_text ''three days'' ''SHOOT DAYS: 2''),
                        text_turn ''assistant'' ''SHOOT DAYS: 3'']) \<and>
   length (ex_history @ [text_turn ''user'' (revision_text ''three days'' ''SHOOT DAYS: 2''),
                        text_turn ''assistant'' ''SHOOT DAYS: 3'']) = length ex_history + 2 \<and>
   take (length ex_history)
     (ex_history @ [text_turn ''user'' (revision_text ''three days'' ''SHOOT DAYS: 2''),
                    text_turn ''assistant'' ''SHOOT DAYS: 3'']) = ex_history"
proof -
  have c: "conversationHistory (ex_body (Some (JArr ex_history))) = Some (JArr ex_history)"
    by (simp add: ex_body_def)
  from revise_history_growth[OF c, of ex_revise_env] ex_revise_result
  have "length (ex_history @ [text_turn ''user'' (revision_text ''three days'' ''SHOOT DAYS: 2''),
                        text_turn ''assistant'' ''SHOOT DAYS: 3'']) = length ex_history + 2 \<and>
    take (length ex_history)
     (ex_history @ [text_turn ''user'' (revision_text ''three days'' ''SHOOT DAYS: 2''),
                    text_turn ''assistant'' ''SHOOT DAYS: 3'']) = ex_history"
    by blast
  with c ex_revise_result show ?thesis by blast
qed

subsection \<open>C10: a missing history\<close>

text \<open>
  Claim C10: a revise request without a history, or with the history \<open>null\<close>, is
  handled as the same request with the empty history; with both texts present, the
  credential configured and an answer of the service, the returned history consists of the
  new user turn and the new assistant turn.
\<close>

theorem revise_without_history:
  assumes "conversationHistory body = None \<or> conversationHistory body = Some JNull"
  shows "revise_breakdown e body = revise_breakdown e (body\<lparr>conversationHistory := Some (JArr [])\<rparr>) \<and>
         (revisionRequest body \<noteq> [] \<and> currentBreakdown body \<noteq> [] \<and> r_api_key_set e \<longrightarrow>
           (\<forall>t. r_messages_create e
                  \<lparr>max_tokens = MAX_TOKENS, system = SYSTEM_PROMPT,
                   messages = [text_turn ''user''
                      (revision_text (revisionRequest body) (currentBreakdown body))]\<rparr> = Inr t \<longrightarrow>
                revise_breakdown e body =
                  BreakdownResponse (or_empty t)
                    [text_turn ''user'' (revision_text (revisionRequest body) (currentBreakdown body)),
                     text_turn ''assistant'' (or_empty t)]))"
  using assms
  by (auto simp: revise_breakdown_def history_or_empty_def Let_def)

theorem revise_without_history_witness:
  "conversationHistory (ex_body None) = None \<and>
   revise_breakdown ex_revise_env (ex_body None)
     = BreakdownResponse ''SHOOT DAYS: 3''
         [text_turn ''user'' (revision_text ''three days'' ''SHOOT DAYS: 2''),
          text_turn ''assistant'' ''SHOOT DAYS: 3''] \<and>
   revise_breakdown ex_revise_env (ex_body (Some JNull))
     = BreakdownResponse ''SHOOT DAYS: 3''
         [text_turn ''user'' (revision_text ''three days'' ''SHOOT DAYS: 2''),
          text_turn ''assistant'' ''SHOOT DAYS: 3'']"
proof -
  have n: "conversationHistory (ex_body None) = None \<or> conversationHistory (ex_body None) = Some JNull"
    by (simp add: ex_body_def)
  have j: "conversationHistory (ex_body (Some JNull)) = None \<or>
           conversationHistory (ex_body (Some JNull)) = Some JNull"
    by (simp add: ex_body_def)
  from revise_without_history[OF n, of ex_revise_env, THEN conjunct2] revise_without_history[OF j, of ex_revise_env, THEN conjunct2]
  show ?thesis
    by (simp add: ex_body_def ex_revise_env_def or_empty_def)
qed

end
